theory Spec2Isabelle
  imports Main "HOL-Library.Char_ord" "HOL-Library.List_Lexorder"
begin

section \<open>Data model of the sync queue\<close>

text \<open>
  A rejected promise or a thrown exception is a value: the JavaScript error object with
  its \<open>name\<close> and its \<open>message\<close>. An asynchronous function of the source returns
  \<open>js_error + 'a\<close>, with \<open>Inl\<close> for a rejection.
\<close>

datatype js_error = JsError (err_name: string) (message: string)

datatype status = Pending | Synced | Failed

type_synonym timestamp = nat

text \<open>
  A queue item is the object built by \<open>addToQueue\<close>: the fields of the descriptor
  (\<open>type\<close>, \<open>action\<close>, \<open>data\<close>, \<open>collection\<close>), then \<open>id\<close>, \<open>timestamp\<close>,
  \<open>status\<close> and \<open>attempts\<close>; \<open>lastError\<close>, \<open>lastAttempt\<close> and \<open>syncedAt\<close> are
  absent until \<open>updateQueueItem\<close> assigns them. \<open>attempts\<close> starts at 0 and is only ever
  changed by adding 1, so it is a natural number, on which \<open>item.attempts || 0\<close> is the
  identity.
\<close>

record queue_item =
  item_id :: string
  item_type :: string
  action :: string
  collection :: string
  item_data :: string
  timestamp :: timestamp
  status :: status
  attempts :: nat
  lastError :: "string option"
  lastAttempt :: "timestamp option"
  syncedAt :: "timestamp option"

record descriptor =
  d_type :: string
  d_action :: string
  d_data :: string
  d_collection :: string

text \<open>The second argument of \<open>Object.assign(item, updates)\<close>: a field is given or not.\<close>

record item_updates =
  u_id :: "string option"
  u_type :: "string option"
  u_action :: "string option"
  u_collection :: "string option"
  u_data :: "string option"
  u_timestamp :: "timestamp option"
  u_status :: "status option"
  u_attempts :: "nat option"
  u_lastError :: "string option"
  u_lastAttempt :: "timestamp option"
  u_syncedAt :: "timestamp option"

definition no_updates :: item_updates where
  "no_updates = \<lparr>u_id = None, u_type = None, u_action = None, u_collection = None,
     u_data = None, u_timestamp = None, u_status = None, u_attempts = None,
     u_lastError = None, u_lastAttempt = None, u_syncedAt = None\<rparr>"

definition or_else :: "'a option \<Rightarrow> 'a \<Rightarrow> 'a" where
  "or_else u old = (case u of None \<Rightarrow> old | Some v \<Rightarrow> v)"

definition or_keep :: "'a option \<Rightarrow> 'a option \<Rightarrow> 'a option" where
  "or_keep u old = (case u of None \<Rightarrow> old | Some v \<Rightarrow> Some v)"

definition object_assign :: "queue_item \<Rightarrow> item_updates \<Rightarrow> queue_item" where
  "object_assign item u =
     \<lparr>item_id = or_else (u_id u) (item_id item),
      item_type = or_else (u_type u) (item_type item),
      action = or_else (u_action u) (action item),
      collection = or_else (u_collection u) (collection item),
      item_data = or_else (u_data u) (item_data item),
      timestamp = or_else (u_timestamp u) (timestamp item),
      status = or_else (u_status u) (status item),
      attempts = or_else (u_attempts u) (attempts item),
      lastError = or_keep (u_lastError u) (lastError item),
      lastAttempt = or_keep (u_lastAttempt u) (lastAttempt item),
      syncedAt = or_keep (u_syncedAt u) (syncedAt item)\<rparr>"

section \<open>The record store (agriDB over IndexedDB)\<close>

text \<open>
  The object store \<open>syncQueue\<close> has key path \<open>id\<close>: it holds at most one item per id.
  It is modelled as the list of its items; the \<open>settings\<close> store is reduced to the one
  key the sync code writes, \<open>lastSync\<close>. A request for all items of an index answers in
  the order of the keys, the ids compared as strings.
\<close>

record database =
  syncQueueStore :: "queue_item list"
  lastSync :: "timestamp option"

text \<open>
  \<open>agriDB.db\<close> is \<open>null\<close> until \<open>init\<close> has opened the database; every method
  then throws a TypeError inside its promise, which rejects.
\<close>

record agri_db =
  connected :: bool
  idb :: database

definition not_open :: js_error where
  "not_open = JsError ''TypeError'' ''Cannot read properties of null''"

definition constraint_error :: js_error where
  "constraint_error = JsError ''ConstraintError'' ''Key already exists in the object store''"

definition store_get :: "queue_item list \<Rightarrow> string \<Rightarrow> queue_item option" where
  "store_get xs k = find (\<lambda>x. item_id x = k) xs"

definition store_put :: "queue_item list \<Rightarrow> queue_item \<Rightarrow> queue_item list" where
  "store_put xs item =
     (if store_get xs (item_id item) = None then xs @ [item]
      else map (\<lambda>x. if item_id x = item_id item then item else x) xs)"

definition addItem :: "agri_db \<Rightarrow> queue_item \<Rightarrow> js_error + agri_db" where
  "addItem d item =
     (if \<not> connected d then Inl not_open
      else if store_get (syncQueueStore (idb d)) (item_id item) \<noteq> None then Inl constraint_error
      else Inr (d\<lparr>idb := (idb d)\<lparr>syncQueueStore := syncQueueStore (idb d) @ [item]\<rparr>\<rparr>))"

definition getItem :: "agri_db \<Rightarrow> string \<Rightarrow> js_error + queue_item option" where
  "getItem d k =
     (if \<not> connected d then Inl not_open else Inr (store_get (syncQueueStore (idb d)) k))"

definition getAllItems :: "agri_db \<Rightarrow> status \<Rightarrow> js_error + queue_item list" where
  "getAllItems d v =
     (if \<not> connected d then Inl not_open
      else Inr (sort_key item_id (filter (\<lambda>x. status x = v) (syncQueueStore (idb d)))))"

definition updateItem :: "agri_db \<Rightarrow> queue_item \<Rightarrow> js_error + agri_db" where
  "updateItem d item =
     (if \<not> connected d then Inl not_open
      else Inr (d\<lparr>idb := (idb d)\<lparr>syncQueueStore := store_put (syncQueueStore (idb d)) item\<rparr>\<rparr>))"

definition deleteItem :: "agri_db \<Rightarrow> string \<Rightarrow> js_error + agri_db" where
  "deleteItem d k =
     (if \<not> connected d then Inl not_open
      else Inr (d\<lparr>idb := (idb d)\<lparr>syncQueueStore :=
                  filter (\<lambda>x. item_id x \<noteq> k) (syncQueueStore (idb d))\<rparr>\<rparr>))"

definition setSetting_lastSync :: "agri_db \<Rightarrow> timestamp \<Rightarrow> js_error + agri_db" where
  "setSetting_lastSync d t =
     (if \<not> connected d then Inl not_open
      else Inr (d\<lparr>idb := (idb d)\<lparr>lastSync := Some t\<rparr>\<rparr>))"

section \<open>The sync queue (class AgriSync)\<close>

text \<open>
  What the code reads from its surroundings: \<open>navigator.onLine\<close>, the clock, the id that
  \<open>Date.now().toString(36) + Math.random().toString(36).substr(2)\<close> produces, and the
  remote endpoint. \<open>sendToServer\<close> draws its outcome at random, so the endpoint is a
  parameter: the outcome of the \<open>n\<close>-th delivery of a pass for a given item, either a
  response or the \<open>Error\<close> the promise rejects with.
\<close>

record environment =
  online :: bool
  now :: timestamp
  fresh_id :: string
  sendToServer :: "nat \<Rightarrow> queue_item \<Rightarrow> js_error + unit"

text \<open>
  The fields of the instance. \<open>timers\<close> holds the delay of every callback that
  \<open>scheduleRetry\<close> has handed to \<open>setTimeout\<close>; \<open>syncSummaries\<close> holds the count of
  every \<open>updateSyncStatus\<close> call of a pass.
\<close>

record agri_sync =
  syncQueue :: "queue_item list"
  syncInProgress :: bool
  agriDB :: agri_db
  timers :: "nat list"
  syncSummaries :: "nat list"

definition maxRetries :: nat where
  "maxRetries = 3"

definition retryDelay :: nat where
  "retryDelay = 5000"

fun starts_with :: "string \<Rightarrow> string \<Rightarrow> bool" where
  "starts_with s [] = True"
| "starts_with [] (c # cs) = False"
| "starts_with (x # xs) (c # cs) = (x = c \<and> starts_with xs cs)"

text \<open>\<open>String.prototype.includes\<close>: the needle occurs somewhere in the string.\<close>

fun js_includes :: "string \<Rightarrow> string \<Rightarrow> bool" where
  "js_includes [] needle = (needle = [])"
| "js_includes (x # xs) needle = (starts_with (x # xs) needle \<or> js_includes xs needle)"

definition new_queue_item :: "environment \<Rightarrow> descriptor \<Rightarrow> queue_item" where
  "new_queue_item env d =
     \<lparr>item_id = fresh_id env, item_type = d_type d, action = d_action d,
      collection = d_collection d, item_data = d_data d, timestamp = now env,
      status = Pending, attempts = 0,
      lastError = None, lastAttempt = None, syncedAt = None\<rparr>"

text \<open>\<open>saveQueueItem\<close>: the \<open>catch\<close> logs the error and the promise fulfils.\<close>

definition saveQueueItem :: "agri_db \<Rightarrow> queue_item \<Rightarrow> js_error + agri_db" where
  "saveQueueItem d item = (case addItem d item of Inl e \<Rightarrow> Inr d | Inr d' \<Rightarrow> Inr d')"

definition updateQueueItem :: "agri_db \<Rightarrow> string \<Rightarrow> item_updates \<Rightarrow> js_error + agri_db" where
  "updateQueueItem d itemId updates =
     (case getItem d itemId of
        Inl e \<Rightarrow> Inr d
      | Inr None \<Rightarrow> Inr d
      | Inr (Some item) \<Rightarrow>
          (case updateItem d (object_assign item updates) of
             Inl e \<Rightarrow> Inr d
           | Inr d' \<Rightarrow> Inr d'))"

definition removeFromQueue :: "agri_sync \<Rightarrow> string \<Rightarrow> js_error + agri_sync" where
  "removeFromQueue s itemId =
     (case deleteItem (agriDB s) itemId of
        Inl e \<Rightarrow> Inr s
      | Inr d' \<Rightarrow> Inr (s\<lparr>agriDB := d',
                         syncQueue := filter (\<lambda>x. item_id x \<noteq> itemId) (syncQueue s)\<rparr>))"

subsection \<open>One drain pass\<close>

text \<open>
  The locals of \<open>processQueue\<close>: the database as the pass has left it so far,
  \<open>successItems\<close>, \<open>failedItems\<close> (each a copy of the item with its \<open>error\<close> text), and
  \<open>sent\<close>, the items handed to \<open>sendToServer\<close> so far, in order.
\<close>

record pass_state =
  pdb :: agri_db
  successItems :: "string list"
  failedItems :: "(queue_item \<times> string) list"
  sent :: "queue_item list"

text \<open>How the \<open>for\<close> loop ends: it runs out of items, it takes the \<open>break\<close>, or an
  exception leaves the \<open>catch\<close> block and \<open>processQueue\<close> rejects.\<close>

datatype loop_exit = Completed | FailFast | Thrown js_error

definition init_pass :: "agri_db \<Rightarrow> pass_state" where
  "init_pass d = \<lparr>pdb = d, successItems = [], failedItems = [], sent = []\<rparr>"

definition attempt_update :: "nat \<Rightarrow> item_updates" where
  "attempt_update n = no_updates\<lparr>u_attempts := Some n\<rparr>"

definition synced_update :: "timestamp \<Rightarrow> item_updates" where
  "synced_update t = no_updates\<lparr>u_status := Some Synced, u_syncedAt := Some t\<rparr>"

definition error_update :: "string \<Rightarrow> timestamp \<Rightarrow> item_updates" where
  "error_update msg t = no_updates\<lparr>u_lastError := Some msg, u_lastAttempt := Some t\<rparr>"

definition is_network_error :: "js_error \<Rightarrow> bool" where
  "is_network_error e =
     (js_includes (message e) ''Network'' \<or> js_includes (message e) ''Failed to fetch'')"

text \<open>The statements of the \<open>try\<close> block after the retry check, for the item whose
  \<open>attempts\<close> has just been incremented.\<close>

definition try_block :: "environment \<Rightarrow> queue_item \<Rightarrow> pass_state \<Rightarrow> (js_error + unit) \<times> pass_state" where
  "try_block env item st =
     (case updateQueueItem (pdb st) (item_id item) (attempt_update (attempts item)) of
        Inl e \<Rightarrow> (Inl e, st)
      | Inr d1 \<Rightarrow>
          (let st1 = st\<lparr>pdb := d1, sent := sent st @ [item]\<rparr> in
           case sendToServer env (length (sent st)) item of
             Inl e \<Rightarrow> (Inl e, st1)
           | Inr ack \<Rightarrow>
               (let st2 = st1\<lparr>successItems := successItems st1 @ [item_id item]\<rparr> in
                case updateQueueItem d1 (item_id item) (synced_update (now env)) of
                  Inl e \<Rightarrow> (Inl e, st2)
                | Inr d2 \<Rightarrow> (Inr (), st2\<lparr>pdb := d2\<rparr>))))"

definition catch_block :: "environment \<Rightarrow> queue_item \<Rightarrow> js_error \<Rightarrow> pass_state \<Rightarrow> loop_exit \<times> pass_state" where
  "catch_block env item e st =
     (case updateQueueItem (pdb st) (item_id item) (error_update (message e) (now env)) of
        Inl e' \<Rightarrow> (Thrown e', st)
      | Inr d' \<Rightarrow>
          (let st1 = st\<lparr>pdb := d', failedItems := failedItems st @ [(item, message e)]\<rparr>
           in if is_network_error e then (FailFast, st1) else (Completed, st1)))"

text \<open>
  The loop over \<open>this.syncQueue\<close>. The items are objects of the array, mutated in place:
  the function returns the array as the loop leaves it, how the loop ended, and the
  locals. The pause of 100 ms after an item changes no state and is left out.
\<close>

fun process_items :: "environment \<Rightarrow> queue_item list \<Rightarrow> pass_state \<Rightarrow> queue_item list \<times> loop_exit \<times> pass_state" where
  "process_items env [] st = ([], Completed, st)"
| "process_items env (item # rest) st =
     (if attempts item \<ge> maxRetries then
        (case process_items env rest
                (st\<lparr>failedItems := failedItems st @ [(item, ''Max retries exceeded'')]\<rparr>) of
           (rest', ex, st') \<Rightarrow> (item # rest', ex, st'))
      else
        (let item1 = item\<lparr>attempts := attempts item + 1\<rparr> in
         case try_block env item1 st of
           (Inr u, st1) \<Rightarrow>
             (case process_items env rest st1 of
                (rest', ex, st') \<Rightarrow> (item1 # rest', ex, st'))
         | (Inl e, st1) \<Rightarrow>
             (case catch_block env item1 e st1 of
                (Completed, st2) \<Rightarrow>
                  (case process_items env rest st2 of
                     (rest', ex, st') \<Rightarrow> (item1 # rest', ex, st'))
              | (ex, st2) \<Rightarrow> (item1 # rest, ex, st2))))"

definition scheduleRetry :: "agri_sync \<Rightarrow> agri_sync" where
  "scheduleRetry s = s\<lparr>timers := timers s @ [retryDelay]\<rparr>"

text \<open>
  \<open>processQueue\<close>. A pass is modelled as one step: between its first and its last
  statement \<open>syncInProgress\<close> is set, so a call that arrives in between takes the first
  branch.
\<close>

definition processQueue :: "environment \<Rightarrow> agri_sync \<Rightarrow> (js_error + unit) \<times> agri_sync" where
  "processQueue env s =
     (if syncInProgress s \<or> syncQueue s = [] \<or> \<not> online env then (Inr (), s)
      else
        (let s1 = s\<lparr>syncInProgress := True\<rparr> in
         case process_items env (syncQueue s1) (init_pass (agriDB s1)) of
           (items, Thrown e, st) \<Rightarrow> (Inl e, s1\<lparr>syncQueue := items, agriDB := pdb st\<rparr>)
         | (items, ex, st) \<Rightarrow>
             (let s2 = s1\<lparr>syncQueue := filter (\<lambda>x. item_id x \<notin> set (successItems st)) items,
                         agriDB := pdb st,
                         syncInProgress := False\<rparr>;
                  s3 = (if successItems st \<noteq> []
                        then s2\<lparr>syncSummaries := syncSummaries s2 @ [length (successItems st)]\<rparr>
                        else s2);
                  s4 = (if failedItems st \<noteq> [] then scheduleRetry s3 else s3)
              in case setSetting_lastSync (agriDB s4) (now env) of
                   Inl e \<Rightarrow> (Inl e, s4)
                 | Inr d \<Rightarrow> (Inr (), s4\<lparr>agriDB := d\<rparr>))))"

text \<open>The callback that \<open>scheduleRetry\<close> hands to \<open>setTimeout\<close>.\<close>

definition retry_callback :: "environment \<Rightarrow> agri_sync \<Rightarrow> (js_error + unit) \<times> agri_sync" where
  "retry_callback env s =
     (if online env \<and> syncQueue s \<noteq> [] then processQueue env s else (Inr (), s))"

text \<open>
  \<open>addToQueue\<close>. The call \<open>this.processQueue()\<close> at its end is not awaited: a rejection
  of that pass does not reach the caller of \<open>addToQueue\<close>.
\<close>

definition addToQueue :: "environment \<Rightarrow> descriptor \<Rightarrow> agri_sync \<Rightarrow> (js_error + string) \<times> agri_sync" where
  "addToQueue env d s =
     (let queueItem = new_queue_item env d;
          s1 = s\<lparr>syncQueue := syncQueue s @ [queueItem]\<rparr>
      in case saveQueueItem (agriDB s1) queueItem of
           Inl e \<Rightarrow> (Inl e, s1)
         | Inr d' \<Rightarrow>
             (let s2 = s1\<lparr>agriDB := d'\<rparr>;
                  s3 = (if online env then snd (processQueue env s2) else s2)
              in (Inr (item_id queueItem), s3)))"

section \<open>Background sync in the service worker\<close>

text \<open>
  The service worker opens the same database (\<open>AgriInfoDB_Kenya\<close>, version 4) with its
  own connection and works on the object store directly. \<open>syncToServer\<close> draws its
  outcome at random, so it is a parameter, as \<open>sendToServer\<close> is.
\<close>

record sw_environment =
  sw_now :: timestamp
  open_ok :: bool
  syncToServer :: "nat \<Rightarrow> queue_item \<Rightarrow> js_error + unit"

record sync_results =
  successful :: nat
  failed :: nat
  errors :: "(string \<times> string) list"

datatype client_message = SyncComplete sync_results | SyncFailed string

definition open_failed :: js_error where
  "open_failed = JsError ''UnknownError'' ''The database could not be opened''"

definition openIndexedDB :: "sw_environment \<Rightarrow> database \<Rightarrow> js_error + database" where
  "openIndexedDB env db = (if open_ok env then Inr db else Inl open_failed)"

definition getPendingSyncItems :: "database \<Rightarrow> js_error + queue_item list" where
  "getPendingSyncItems db =
     Inr (sort_key item_id (filter (\<lambda>x. status x = Pending) (syncQueueStore db)))"

definition markAsSynced :: "timestamp \<Rightarrow> database \<Rightarrow> string \<Rightarrow> js_error + database" where
  "markAsSynced t db itemId =
     (case store_get (syncQueueStore db) itemId of
        None \<Rightarrow> Inr db
      | Some item \<Rightarrow>
          Inr (db\<lparr>syncQueueStore :=
                 store_put (syncQueueStore db) (item\<lparr>status := Synced, syncedAt := Some t\<rparr>)\<rparr>))"

definition updateRetryCount :: "timestamp \<Rightarrow> database \<Rightarrow> string \<Rightarrow> js_error + database" where
  "updateRetryCount t db itemId =
     (case store_get (syncQueueStore db) itemId of
        None \<Rightarrow> Inr db
      | Some item \<Rightarrow>
          Inr (db\<lparr>syncQueueStore :=
                 store_put (syncQueueStore db)
                   (item\<lparr>attempts := attempts item + 1,
                         lastError := Some ''Background sync failed'',
                         lastAttempt := Some t\<rparr>)\<rparr>))"

text \<open>
  The loop of \<open>syncPendingData\<close> over the pending items, the \<open>n\<close>-th call of
  \<open>syncToServer\<close> next. An error of \<open>updateRetryCount\<close> leaves the loop for the outer
  \<open>catch\<close>; what the database holds by then stays.
\<close>

fun sync_pending_items :: "sw_environment \<Rightarrow> queue_item list \<Rightarrow> nat \<Rightarrow> database \<Rightarrow> sync_results \<Rightarrow> database \<times> (js_error + sync_results)" where
  "sync_pending_items env [] n db r = (db, Inr r)"
| "sync_pending_items env (item # rest) n db r =
     (case (case syncToServer env n item of
              Inl e \<Rightarrow> Inl e
            | Inr ack \<Rightarrow> markAsSynced (sw_now env) db (item_id item)) of
        Inr db' \<Rightarrow> sync_pending_items env rest (n + 1) db' (r\<lparr>successful := successful r + 1\<rparr>)
      | Inl e \<Rightarrow>
          (case updateRetryCount (sw_now env) db (item_id item) of
             Inl e' \<Rightarrow> (db, Inl e')
           | Inr db' \<Rightarrow>
               sync_pending_items env rest (n + 1) db'
                 (r\<lparr>failed := failed r + 1, errors := errors r @ [(item_id item, message e)]\<rparr>)))"

text \<open>\<open>syncPendingData\<close>: the database afterwards and the message posted to the clients,
  if any.\<close>

definition syncPendingData :: "sw_environment \<Rightarrow> database \<Rightarrow> database \<times> client_message option" where
  "syncPendingData env db0 =
     (case openIndexedDB env db0 of
        Inl e \<Rightarrow> (db0, Some (SyncFailed (message e)))
      | Inr db \<Rightarrow>
          (case getPendingSyncItems db of
             Inl e \<Rightarrow> (db, Some (SyncFailed (message e)))
           | Inr pendingItems \<Rightarrow>
               if pendingItems = [] then (db, None)
               else
                 (case sync_pending_items env pendingItems 0 db
                         \<lparr>successful = 0, failed = 0, errors = []\<rparr> of
                    (db', Inl e) \<Rightarrow> (db', Some (SyncFailed (message e)))
                  | (db', Inr results) \<Rightarrow> (db', Some (SyncComplete results)))))"

section \<open>Sequences of operations on the queue\<close>

datatype sync_op =
    Enqueue environment descriptor
  | Drain environment
  | BackgroundSync sw_environment

fun apply_op :: "sync_op \<Rightarrow> agri_sync \<Rightarrow> agri_sync" where
  "apply_op (Enqueue env d) s = snd (addToQueue env d s)"
| "apply_op (Drain env) s = snd (processQueue env s)"
| "apply_op (BackgroundSync env) s =
     s\<lparr>agriDB := (agriDB s)\<lparr>idb := fst (syncPendingData env (idb (agriDB s)))\<rparr>\<rparr>"

fun run_ops :: "sync_op list \<Rightarrow> agri_sync \<Rightarrow> agri_sync" where
  "run_ops [] s = s"
| "run_ops (op # ops) s = run_ops ops (apply_op op s)"

fun is_background_sync :: "sync_op \<Rightarrow> bool" where
  "is_background_sync (BackgroundSync env) = True"
| "is_background_sync op = False"

text \<open>How one item of the in-memory queue may differ after a pass: not at all, or by one
  more attempt, and then only if it had attempts left.\<close>

definition attempted_once :: "queue_item \<Rightarrow> queue_item \<Rightarrow> bool" where
  "attempted_once old new =
     (new = old \<or> (attempts old < maxRetries \<and> new = old\<lparr>attempts := attempts old + 1\<rparr>))"

text \<open>The database that \<open>updateQueueItem\<close> leaves behind.\<close>

definition stored_after :: "agri_db \<Rightarrow> string \<Rightarrow> item_updates \<Rightarrow> agri_db" where
  "stored_after d k u = (case updateQueueItem d k u of Inl e \<Rightarrow> d | Inr d' \<Rightarrow> d')"

text \<open>One delivery: the \<open>try\<close> block and, when it throws, the \<open>catch\<close> block.\<close>

definition deliver :: "environment \<Rightarrow> queue_item \<Rightarrow> pass_state \<Rightarrow> loop_exit \<times> pass_state" where
  "deliver env item st =
     (case try_block env item st of
        (Inr u, st1) \<Rightarrow> (Completed, st1)
      | (Inl e, st1) \<Rightarrow> catch_block env item e st1)"

text \<open>The instance after a pass that ran with the given outcome of the loop.\<close>

definition finished_pass :: "environment \<Rightarrow> agri_sync \<Rightarrow> queue_item list \<Rightarrow> pass_state \<Rightarrow> agri_sync" where
  "finished_pass env s items st =
     s\<lparr>syncQueue := filter (\<lambda>x. item_id x \<notin> set (successItems st)) items,
       syncInProgress := False,
       agriDB := (if connected (pdb st)
                  then (pdb st)\<lparr>idb := (idb (pdb st))\<lparr>lastSync := Some (now env)\<rparr>\<rparr>
                  else pdb st),
       timers := timers s @ (if failedItems st \<noteq> [] then [retryDelay] else []),
       syncSummaries := syncSummaries s @
          (if successItems st \<noteq> [] then [length (successItems st)] else [])\<rparr>"

section \<open>A pass step by step\<close>

text \<open>
  \<open>processQueue\<close> is an async function: between its first statement and its last it
  gives up control at every \<open>await\<close>, and other calls of \<open>processQueue\<close> run in
  between. Here a pass is cut at the items of its loop: a call starts a pass, each
  resumption handles one item, and the last resumption runs the statements after the
  loop. While a pass is between two of its \<open>await\<close>s the flag does not change, so a call
  that arrives in the middle of an item sees what a call between two items sees.

  \<open>process_item\<close> is the body of the \<open>for\<close> loop for one item: the item as the body
  leaves it, whether the loop goes on, and the locals.
\<close>

definition process_item :: "environment \<Rightarrow> queue_item \<Rightarrow> pass_state \<Rightarrow> queue_item \<times> loop_exit \<times> pass_state" where
  "process_item env item st =
     (if attempts item \<ge> maxRetries then
        (item, Completed, st\<lparr>failedItems := failedItems st @ [(item, ''Max retries exceeded'')]\<rparr>)
      else
        (let item1 = item\<lparr>attempts := attempts item + 1\<rparr> in
         case try_block env item1 st of
           (Inr u, st1) \<Rightarrow> (item1, Completed, st1)
         | (Inl e, st1) \<Rightarrow>
             (case catch_block env item1 e st1 of (ex, st2) \<Rightarrow> (item1, ex, st2))))"

text \<open>The statements of \<open>processQueue\<close> after the loop, for the given locals. Nothing runs
  after the \<open>await\<close> of \<open>setSetting\<close>, and the callers of \<open>processQueue\<close> drop its promise.\<close>

definition end_pass :: "environment \<Rightarrow> agri_sync \<Rightarrow> pass_state \<Rightarrow> agri_sync" where
  "end_pass env s st =
     (let s2 = s\<lparr>syncQueue := filter (\<lambda>x. item_id x \<notin> set (successItems st)) (syncQueue s),
                 syncInProgress := False\<rparr>;
          s3 = (if successItems st \<noteq> []
                then s2\<lparr>syncSummaries := syncSummaries s2 @ [length (successItems st)]\<rparr>
                else s2);
          s4 = (if failedItems st \<noteq> [] then scheduleRetry s3 else s3)
      in case setSetting_lastSync (agriDB s4) (now env) of
           Inl e \<Rightarrow> s4
         | Inr d \<Rightarrow> s4\<lparr>agriDB := d\<rparr>)"

text \<open>
  A pass that has started and not ended: the index of the next item of \<open>this.syncQueue\<close>
  and the locals; the database of the locals is the one global \<open>agriDB\<close>, read at each
  resumption. The system is the instance together with every pass that is under way.
\<close>

record running_pass =
  cursor :: nat
  locals :: pass_state

record drain_system =
  app :: agri_sync
  passes :: "running_pass list"

text \<open>A call of \<open>processQueue\<close>: the test, and the assignment of the flag.\<close>

definition begin_pass :: "environment \<Rightarrow> drain_system \<Rightarrow> drain_system" where
  "begin_pass env sys =
     (let s = app sys in
      if syncInProgress s \<or> syncQueue s = [] \<or> \<not> online env then sys
      else \<lparr>app = s\<lparr>syncInProgress := True\<rparr>,
            passes = passes sys @ [\<lparr>cursor = 0, locals = init_pass (agriDB s)\<rparr>]\<rparr>)"

text \<open>The \<open>k\<close>-th pass under way goes on: with the next item, or, when the loop is over
  or takes the \<open>break\<close>, with the statements after the loop. A pass whose \<open>catch\<close> block
  throws ends there, its flag still set.\<close>

definition resume_pass :: "nat \<Rightarrow> environment \<Rightarrow> drain_system \<Rightarrow> drain_system" where
  "resume_pass k env sys =
     (if length (passes sys) \<le> k then sys
      else
        (let p = passes sys ! k;
             s = app sys;
             others = take k (passes sys) @ drop (Suc k) (passes sys)
         in if cursor p < length (syncQueue s) then
              (case process_item env (syncQueue s ! cursor p) ((locals p)\<lparr>pdb := agriDB s\<rparr>) of
                 (item', Completed, st) \<Rightarrow>
                   \<lparr>app = s\<lparr>syncQueue := (syncQueue s)[cursor p := item'], agriDB := pdb st\<rparr>,
                    passes = (passes sys)[k := \<lparr>cursor = cursor p + 1, locals = st\<rparr>]\<rparr>
               | (item', FailFast, st) \<Rightarrow>
                   \<lparr>app = end_pass env
                            (s\<lparr>syncQueue := (syncQueue s)[cursor p := item'], agriDB := pdb st\<rparr>) st,
                    passes = others\<rparr>
               | (item', Thrown e, st) \<Rightarrow>
                   \<lparr>app = s\<lparr>syncQueue := (syncQueue s)[cursor p := item'], agriDB := pdb st\<rparr>,
                    passes = others\<rparr>)
            else \<lparr>app = end_pass env s ((locals p)\<lparr>pdb := agriDB s\<rparr>), passes = others\<rparr>))"

datatype drain_event = Trigger environment | Resume nat environment

fun fire :: "drain_event \<Rightarrow> drain_system \<Rightarrow> drain_system" where
  "fire (Trigger env) sys = begin_pass env sys"
| "fire (Resume k env) sys = resume_pass k env sys"

fun run_events :: "drain_event list \<Rightarrow> drain_system \<Rightarrow> drain_system" where
  "run_events [] sys = sys"
| "run_events (ev # evs) sys = run_events evs (fire ev sys)"

text \<open>At most one pass is under way, and while one is the flag is set.\<close>

definition single_flight :: "drain_system \<Rightarrow> bool" where
  "single_flight sys =
     (length (passes sys) \<le> 1 \<and> (passes sys \<noteq> [] \<longrightarrow> syncInProgress (app sys)))"

section \<open>Attempts along a sequence of operations\<close>

text \<open>The ids that the enqueues of a sequence assign.\<close>

fun enqueued_ids :: "sync_op list \<Rightarrow> string list" where
  "enqueued_ids [] = []"
| "enqueued_ids (Enqueue env d # ops) = fresh_id env # enqueued_ids ops"
| "enqueued_ids (op # ops) = enqueued_ids ops"

text \<open>Every enqueue of the sequence assigns an id that neither the queue nor the store
  holds at that moment.\<close>

fun fresh_enqueues :: "sync_op list \<Rightarrow> agri_sync \<Rightarrow> bool" where
  "fresh_enqueues [] s = True"
| "fresh_enqueues (Enqueue env d # ops) s =
     (fresh_id env \<notin> set (map item_id (syncQueue s)) \<and>
      store_get (syncQueueStore (idb (agriDB s))) (fresh_id env) = None \<and>
      fresh_enqueues ops (apply_op (Enqueue env d) s))"
| "fresh_enqueues (op # ops) s = fresh_enqueues ops (apply_op op s)"

text \<open>No stored copy counts more attempts than the item of the queue with its id.\<close>

definition stored_not_ahead :: "agri_sync \<Rightarrow> bool" where
  "stored_not_ahead s =
     (\<forall>x\<in>set (syncQueue s).
        case store_get (syncQueueStore (idb (agriDB s))) (item_id x) of
          None \<Rightarrow> True
        | Some y \<Rightarrow> attempts y \<le> attempts x)"

text \<open>Every item that the store holds before is held afterwards, under its id, with at
  least as many attempts.\<close>

definition attempts_kept :: "queue_item list \<Rightarrow> queue_item list \<Rightarrow> bool" where
  "attempts_kept before after =
     (\<forall>x\<in>set before.
        case store_get before (item_id x) of
          None \<Rightarrow> True
        | Some y \<Rightarrow>
            (case store_get after (item_id x) of
               None \<Rightarrow> False
             | Some y' \<Rightarrow> attempts y \<le> attempts y'))"

section \<open>The response cache of the service worker\<close>

record request =
  url :: string
  req_method :: string

text \<open>
  A body is text, or the object handed to \<open>JSON.stringify\<close>, kept as the list of its
  members, or the placeholder drawing that names the file.
\<close>

datatype body = Text string | JsonObject "(string \<times> string) list" | SvgPlaceholder string

record response =
  resp_status :: nat
  statusText :: string
  headers :: "(string \<times> string) list"
  resp_body :: body

record response_init =
  init_status :: "nat option"
  init_statusText :: "string option"
  init_headers :: "(string \<times> string) list"

text \<open>\<open>new Response(body, init)\<close>: without \<open>status\<close> in \<open>init\<close> the status is 200,
  without \<open>statusText\<close> the text is empty.\<close>

definition new_Response :: "body \<Rightarrow> response_init \<Rightarrow> response" where
  "new_Response b init =
     \<lparr>resp_status = or_else (init_status init) 200,
      statusText = or_else (init_statusText init) [],
      headers = init_headers init,
      resp_body = b\<rparr>"

text \<open>
  \<open>Headers.set\<close>: header names match whatever the case of their letters. The value of
  the first header of that name is replaced and the other headers of that name are
  removed; when there is none the header is appended.
\<close>

definition ascii_lower :: "char \<Rightarrow> char" where
  "ascii_lower c =
     (let n = (of_char c :: nat) in if 65 \<le> n \<and> n \<le> 90 then char_of (n + 32) else c)"

definition same_header_name :: "string \<Rightarrow> string \<Rightarrow> bool" where
  "same_header_name a b = (map ascii_lower a = map ascii_lower b)"

fun headers_set :: "(string \<times> string) list \<Rightarrow> string \<Rightarrow> string \<Rightarrow> (string \<times> string) list" where
  "headers_set [] k v = [(k, v)]"
| "headers_set ((k', v') # hs) k v =
     (if same_header_name k' k
      then (k', v) # filter (\<lambda>h. \<not> same_header_name (fst h) k) hs
      else (k', v') # headers_set hs k v)"

definition headers_get :: "(string \<times> string) list \<Rightarrow> string \<Rightarrow> string option" where
  "headers_get hs k = map_of hs k"

text \<open>
  The cache storage: a partition name gives the entries of that partition, keyed by the
  URL of the GET request. \<open>fetch_log\<close> records every request handed to \<open>fetch\<close>.
  \<open>cache.put\<close> is not awaited in the source; the entry is taken as written at once.
\<close>

record sw_state =
  caches :: "string \<Rightarrow> string \<rightharpoonup> response"
  fetch_log :: "request list"

text \<open>The network and the clock of the service worker: \<open>fetch\<close> gives a response or
  rejects.\<close>

record network =
  fetch :: "request \<Rightarrow> js_error + response"
  iso_now :: string

definition CACHE_NAME :: string where "CACHE_NAME = ''agriinfo-kenya-v2.0''"
definition API_CACHE :: string where "API_CACHE = ''agriinfo-api-v1''"
definition IMAGE_CACHE :: string where "IMAGE_CACHE = ''agriinfo-images-v1''"
definition DYNAMIC_CACHE :: string where "DYNAMIC_CACHE = ''agriinfo-dynamic-v1''"

definition cache_match :: "sw_state \<Rightarrow> string \<Rightarrow> request \<Rightarrow> response option" where
  "cache_match st name req = caches st name (url req)"

definition cache_put :: "sw_state \<Rightarrow> string \<Rightarrow> request \<Rightarrow> response \<Rightarrow> sw_state" where
  "cache_put st name req resp = st\<lparr>caches := (caches st)(name := (caches st name)(url req \<mapsto> resp))\<rparr>"

definition do_fetch :: "network \<Rightarrow> request \<Rightarrow> sw_state \<Rightarrow> (js_error + response) \<times> sw_state" where
  "do_fetch net req st = (fetch net req, st\<lparr>fetch_log := fetch_log st @ [req]\<rparr>)"

definition offline_payload :: "network \<Rightarrow> response" where
  "offline_payload net =
     new_Response
       (JsonObject [(''status'', ''offline''),
                    (''message'', ''You are offline. Data may be outdated.''),
                    (''timestamp'', iso_now net)])
       \<lparr>init_status = None, init_statusText = None,
        init_headers = [(''Content-Type'', ''application/json''), (''X-Offline'', ''true'')]\<rparr>"

definition apiStrategy :: "network \<Rightarrow> request \<Rightarrow> sw_state \<Rightarrow> (js_error + response) \<times> sw_state" where
  "apiStrategy net req st =
     (case do_fetch net req st of
        (Inr networkResponse, st1) \<Rightarrow>
          (Inr networkResponse,
           if resp_status networkResponse = 200
           then cache_put st1 API_CACHE req networkResponse else st1)
      | (Inl error, st1) \<Rightarrow>
          (case cache_match st1 API_CACHE req of
             Some cachedResponse \<Rightarrow>
               (Inr (new_Response (resp_body cachedResponse)
                      \<lparr>init_status = Some (resp_status cachedResponse),
                       init_statusText = Some (statusText cachedResponse),
                       init_headers =
                         headers_set (headers_set (headers cachedResponse) ''X-Cache'' ''HIT'')
                           ''X-Offline'' ''true''\<rparr>), st1)
           | None \<Rightarrow> (Inr (offline_payload net), st1)))"

text \<open>\<open>event.request.url.split('/').pop()\<close>\<close>

definition last_segment :: "string \<Rightarrow> string" where
  "last_segment u = rev (takeWhile (\<lambda>c. c \<noteq> CHR ''/'') (rev u))"

definition imageStrategy :: "network \<Rightarrow> request \<Rightarrow> sw_state \<Rightarrow> (js_error + response) \<times> sw_state" where
  "imageStrategy net req st =
     (case cache_match st IMAGE_CACHE req of
        Some cachedResponse \<Rightarrow> (Inr cachedResponse, st)
      | None \<Rightarrow>
          (case do_fetch net req st of
             (Inr networkResponse, st1) \<Rightarrow>
               (Inr networkResponse,
                if resp_status networkResponse = 200
                then cache_put st1 IMAGE_CACHE req networkResponse else st1)
           | (Inl error, st1) \<Rightarrow>
               (Inr (new_Response (SvgPlaceholder (last_segment (url req)))
                      \<lparr>init_status = None, init_statusText = None,
                       init_headers = [(''Content-Type'', ''image/svg+xml''),
                                       (''X-Offline'', ''true'')]\<rparr>), st1)))"

definition staticStrategy :: "network \<Rightarrow> request \<Rightarrow> sw_state \<Rightarrow> (js_error + response) \<times> sw_state" where
  "staticStrategy net req st =
     (case cache_match st CACHE_NAME req of
        Some cachedResponse \<Rightarrow> (Inr cachedResponse, st)
      | None \<Rightarrow> do_fetch net req st)"

text \<open>The older worker, \<open>service-worker.js\<close>: its \<open>apiFirstStrategy\<close> returns the cached
  response as it is, and its payload has no timestamp.\<close>

definition offline_fallback :: response where
  "offline_fallback =
     new_Response
       (JsonObject [(''status'', ''offline''),
                    (''message'', ''You are offline. Data may be outdated.'')])
       \<lparr>init_status = None, init_statusText = None,
        init_headers = [(''Content-Type'', ''application/json''), (''X-Offline'', ''true'')]\<rparr>"

definition apiFirstStrategy :: "network \<Rightarrow> request \<Rightarrow> sw_state \<Rightarrow> (js_error + response) \<times> sw_state" where
  "apiFirstStrategy net req st =
     (case do_fetch net req st of
        (Inr resp, st1) \<Rightarrow>
          (Inr resp, if resp_status resp = 200 then cache_put st1 API_CACHE req resp else st1)
      | (Inl error, st1) \<Rightarrow>
          (case cache_match st1 API_CACHE req of
             Some cachedResponse \<Rightarrow> (Inr cachedResponse, st1)
           | None \<Rightarrow> (Inr offline_fallback, st1)))"

text \<open>The member of a JSON body, if the body is one.\<close>

definition json_member :: "body \<Rightarrow> string \<Rightarrow> string option" where
  "json_member b k = (case b of JsonObject ms \<Rightarrow> map_of ms k | _ \<Rightarrow> None)"

section \<open>Sample values\<close>

definition sample_item :: "string \<Rightarrow> nat \<Rightarrow> queue_item" where
  "sample_item k n =
     \<lparr>item_id = k, item_type = ''listing_create'', action = ''create'',
      collection = ''marketListings'', item_data = ''maize'', timestamp = 1,
      status = Pending, attempts = n,
      lastError = None, lastAttempt = None, syncedAt = None\<rparr>"

definition sample_db :: "queue_item list \<Rightarrow> agri_db" where
  "sample_db xs = \<lparr>connected = True, idb = \<lparr>syncQueueStore = xs, lastSync = None\<rparr>\<rparr>"

definition sample_sync :: "queue_item list \<Rightarrow> agri_sync" where
  "sample_sync xs = \<lparr>syncQueue = xs, syncInProgress = False, agriDB = sample_db xs,
     timers = [], syncSummaries = []\<rparr>"

definition sample_descriptor :: descriptor where
  "sample_descriptor = \<lparr>d_type = ''listing_create'', d_action = ''create'',
     d_data = ''beans'', d_collection = ''marketListings''\<rparr>"

text \<open>An endpoint that rejects every delivery with the given message.\<close>

definition failing_env :: "bool \<Rightarrow> string \<Rightarrow> environment" where
  "failing_env on msg = \<lparr>online = on, now = 7, fresh_id = ''k9'',
     sendToServer = (\<lambda>n x. Inl (JsError ''Error'' msg))\<rparr>"

text \<open>An item that was delivered earlier and is still stored.\<close>

definition synced_item :: "string \<Rightarrow> nat \<Rightarrow> queue_item" where
  "synced_item k n = (sample_item k n)\<lparr>status := Synced, syncedAt := Some 5\<rparr>"

definition failing_sw_env :: sw_environment where
  "failing_sw_env = \<lparr>sw_now = 9, open_ok = True,
     syncToServer = (\<lambda>n x. Inl (JsError ''Error'' ''Simulated server error''))\<rparr>"

definition offline_network :: network where
  "offline_network = \<lparr>fetch = (\<lambda>r. Inl (JsError ''TypeError'' ''Failed to fetch'')),
     iso_now = ''2024-01-01T00:00:00.000Z''\<rparr>"

definition sample_request :: "string \<Rightarrow> request" where
  "sample_request u = \<lparr>url = u, req_method = ''GET''\<rparr>"

definition sample_response :: response where
  "sample_response = \<lparr>resp_status = 200, statusText = ''OK'',
     headers = [(''Content-Type'', ''text/css'')], resp_body = Text ''body {}''\<rparr>"

definition empty_caches :: sw_state where
  "empty_caches = \<lparr>caches = (\<lambda>name. Map.empty), fetch_log = []\<rparr>"

section \<open>Strings\<close>

text \<open>\<open>js_includes\<close> is the substring test.\<close>

lemma starts_with_iff: "starts_with s needle \<longleftrightarrow> (\<exists>ss. s = needle @ ss)"
  by (induction s needle rule: starts_with.induct) auto

lemma js_includes_iff: "js_includes s needle \<longleftrightarrow> (\<exists>ps ss. s = ps @ needle @ ss)"
proof (induction s)
  case Nil
  show ?case by auto
next
  case (Cons x xs)
  show ?case
  proof
    assume "js_includes (x # xs) needle"
    then consider "starts_with (x # xs) needle" | "js_includes xs needle" by auto
    then show "\<exists>ps ss. x # xs = ps @ needle @ ss"
    proof cases
      case 1
      then obtain ss where "x # xs = needle @ ss" by (auto simp: starts_with_iff)
      then have "x # xs = [] @ needle @ ss" by simp
      then show ?thesis by blast
    next
      case 2
      with Cons.IH obtain ps ss where "xs = ps @ needle @ ss" by auto
      then have "x # xs = (x # ps) @ needle @ ss" by simp
      then show ?thesis by blast
    qed
  next
    assume "\<exists>ps ss. x # xs = ps @ needle @ ss"
    then obtain ps ss where eq: "x # xs = ps @ needle @ ss" by auto
    show "js_includes (x # xs) needle"
    proof (cases ps)
      case Nil
      with eq have "starts_with (x # xs) needle" by (auto simp: starts_with_iff)
      then show ?thesis by simp
    next
      case (Cons p ps')
      with eq have "xs = ps' @ needle @ ss" by simp
      with Cons.IH have "js_includes xs needle" by blast
      then show ?thesis by simp
    qed
  qed
qed

text \<open>Header names match whatever their case; an index answers in the order of the keys.\<close>

lemma headers_set_ignores_case:
  "headers_set [(''content-type'', ''text/css''), (''x-offline'', ''false'')] ''X-Offline'' ''true''
     = [(''content-type'', ''text/css''), (''x-offline'', ''true'')]"
  by code_simp

lemma pending_items_in_key_order:
  "getPendingSyncItems \<lparr>syncQueueStore = [sample_item ''kb'' 0, sample_item ''ka'' 1], lastSync = None\<rparr>
     = Inr [sample_item ''ka'' 1, sample_item ''kb'' 0]"
  by code_simp

section \<open>The record store: reading back what was put\<close>

lemma find_append_none:
  "find P xs = None \<Longrightarrow> find P (xs @ ys) = find P ys"
  by (induction xs) (auto split: if_splits)

lemma find_append_some:
  "find P xs = Some x \<Longrightarrow> find P (xs @ ys) = Some x"
  by (induction xs) (auto split: if_splits)

lemma store_get_put:
  "store_get (store_put xs item) k = (if k = item_id item then Some item else store_get xs k)"
proof (cases "store_get xs (item_id item)")
  case None
  then show ?thesis
    unfolding store_put_def store_get_def
    by (cases "find (\<lambda>x. item_id x = k) xs") (auto simp: find_append_none find_append_some)
next
  case (Some y)
  have "find (\<lambda>x. item_id x = k) (map (\<lambda>x. if item_id x = item_id item then item else x) xs)
        = (if k = item_id item
           then (if find (\<lambda>x. item_id x = k) xs = None then None else Some item)
           else find (\<lambda>x. item_id x = k) xs)"
    by (induction xs) auto
  with Some show ?thesis
    unfolding store_put_def store_get_def by auto
qed

lemma updateQueueItem_Inr: "updateQueueItem d k u = Inr (stored_after d k u)"
  by (simp add: stored_after_def updateQueueItem_def getItem_def updateItem_def
      split: option.splits)

section \<open>Queue operations\<close>

text \<open>
  C5 (as amended). \<open>updateQueueItem\<close> never fails: on an id that the store does not hold
  it fulfils and leaves the database as it was (no NotFoundError); on an id that the
  store holds it stores the item with exactly the given fields replaced, under the id
  of the merged item, and leaves every other key and the settings alone.
\<close>

theorem updateQueueItem_merges_or_ignores:
  "\<not> isl (updateQueueItem d k u) \<and>
   (getItem d k = Inr None \<longrightarrow> updateQueueItem d k u = Inr d) \<and>
   (getItem d k = Inr (Some item) \<longrightarrow>
      (let d' = projr (updateQueueItem d k u); merged = object_assign item u in
         getItem d' (item_id merged) = Inr (Some merged) \<and>
         (\<forall>k'. k' \<noteq> item_id merged \<longrightarrow> getItem d' k' = getItem d k') \<and>
         lastSync (idb d') = lastSync (idb d) \<and>
         status merged = (case u_status u of None \<Rightarrow> status item | Some v \<Rightarrow> v) \<and>
         attempts merged = (case u_attempts u of None \<Rightarrow> attempts item | Some n \<Rightarrow> n) \<and>
         lastError merged = (case u_lastError u of None \<Rightarrow> lastError item | Some m \<Rightarrow> Some m))) \<and>
   object_assign item no_updates = item"
  by (auto simp: updateQueueItem_def getItem_def updateItem_def store_get_put Let_def
      object_assign_def no_updates_def or_else_def or_keep_def
      split: option.splits if_splits)

theorem updateQueueItem_merges_or_ignores_witness:
  "getItem (sample_db [sample_item ''k1'' 0]) ''k1'' = Inr (Some (sample_item ''k1'' 0)) \<and>
   getItem (sample_db [sample_item ''k1'' 0]) ''k2'' = Inr None \<and>
   updateQueueItem (sample_db [sample_item ''k1'' 0]) ''k2'' (attempt_update 1)
     = Inr (sample_db [sample_item ''k1'' 0]) \<and>
   getItem (projr (updateQueueItem (sample_db [sample_item ''k1'' 0]) ''k1'' (attempt_update 1))) ''k1''
     = Inr (Some (sample_item ''k1'' 1))"
proof -
  let ?d = "sample_db [sample_item ''k1'' 0]"
  have present: "getItem ?d ''k1'' = Inr (Some (sample_item ''k1'' 0))"
    by (simp add: sample_db_def sample_item_def getItem_def store_get_def)
  have absent: "getItem ?d ''k2'' = Inr None"
    by (simp add: sample_db_def sample_item_def getItem_def store_get_def)
  have merged: "object_assign (sample_item ''k1'' 0) (attempt_update 1) = sample_item ''k1'' 1"
    by (simp add: sample_item_def object_assign_def attempt_update_def no_updates_def
        or_else_def or_keep_def)
  have key: "item_id (sample_item ''k1'' 1) = ''k1''"
    by (simp add: sample_item_def)
  from updateQueueItem_merges_or_ignores [of ?d "''k2''" "attempt_update 1" "sample_item ''k1'' 0"]
       updateQueueItem_merges_or_ignores [of ?d "''k1''" "attempt_update 1" "sample_item ''k1'' 0"]
       present absent merged key
  show ?thesis by (simp add: Let_def)
qed

text \<open>The store does not hold \<open>k2\<close>, and the update of \<open>k2\<close> does not fail.\<close>

theorem update_absent_id_counterexample:
  "getItem (sample_db [sample_item ''k1'' 0]) ''k2'' = Inr None \<and>
   \<not> isl (updateQueueItem (sample_db [sample_item ''k1'' 0]) ''k2'' (attempt_update 1))"
  by (simp add: sample_db_def sample_item_def getItem_def store_get_def updateQueueItem_def)

text \<open>
  C6 (as amended). \<open>addToQueue\<close> never fails, whether \<open>addItem\<close> succeeds or not: it returns
  the id it assigned, the id of an item built with status pending and no attempts, which
  it has appended to the in-memory queue. When \<open>addItem\<close> fails the database is left as
  it was, so the item is in memory only. When the browser is online the pass that
  \<open>addToQueue\<close> starts runs on that state.
\<close>

theorem addToQueue_swallows_storage_errors:
  "fst (addToQueue env d s) = Inr (fresh_id env) \<and>
   item_id (new_queue_item env d) = fresh_id env \<and>
   status (new_queue_item env d) = Pending \<and>
   attempts (new_queue_item env d) = 0 \<and>
   (let enqueued = s\<lparr>syncQueue := syncQueue s @ [new_queue_item env d],
                     agriDB := (case addItem (agriDB s) (new_queue_item env d) of
                                  Inl e \<Rightarrow> agriDB s | Inr d' \<Rightarrow> d')\<rparr>
    in snd (addToQueue env d s) =
         (if online env then snd (processQueue env enqueued) else enqueued))"
  by (simp add: addToQueue_def saveQueueItem_def new_queue_item_def Let_def split: sum.splits)

theorem addToQueue_swallows_storage_errors_witness:
  "addItem (agriDB (sample_sync [sample_item ''k9'' 0]))
      (new_queue_item (failing_env False ''Server timeout'') sample_descriptor)
     = Inl constraint_error \<and>
   addToQueue (failing_env False ''Server timeout'') sample_descriptor
      (sample_sync [sample_item ''k9'' 0])
     = (Inr ''k9'', (sample_sync [sample_item ''k9'' 0])
          \<lparr>syncQueue := [sample_item ''k9'' 0,
             new_queue_item (failing_env False ''Server timeout'') sample_descriptor]\<rparr>)"
  using addToQueue_swallows_storage_errors
          [of "failing_env False ''Server timeout''" sample_descriptor
              "sample_sync [sample_item ''k9'' 0]"]
  by (simp add: prod_eq_iff failing_env_def sample_sync_def sample_db_def sample_item_def
      new_queue_item_def addItem_def store_get_def Let_def)

text \<open>The database is not open, \<open>addItem\<close> rejects, and \<open>addToQueue\<close> returns the id.\<close>

theorem enqueue_storage_error_counterexample:
  "addItem (agriDB ((sample_sync [])\<lparr>agriDB := (sample_db [])\<lparr>connected := False\<rparr>\<rparr>))
      (new_queue_item (failing_env False ''Server timeout'') sample_descriptor) = Inl not_open \<and>
   fst (addToQueue (failing_env False ''Server timeout'') sample_descriptor
          ((sample_sync [])\<lparr>agriDB := (sample_db [])\<lparr>connected := False\<rparr>\<rparr>)) = Inr ''k9''"
  by (simp add: addToQueue_def saveQueueItem_def addItem_def sample_sync_def sample_db_def
      failing_env_def new_queue_item_def Let_def)

section \<open>The drain loop\<close>

lemma process_items_Cons:
  "process_items env (item # rest) st =
     (if maxRetries \<le> attempts item then
        (case process_items env rest
                (st\<lparr>failedItems := failedItems st @ [(item, ''Max retries exceeded'')]\<rparr>) of
           (rest', ex, st') \<Rightarrow> (item # rest', ex, st'))
      else
        (case deliver env (item\<lparr>attempts := attempts item + 1\<rparr>) st of
           (Completed, st2) \<Rightarrow>
             (case process_items env rest st2 of
                (rest', ex, st') \<Rightarrow> (item\<lparr>attempts := attempts item + 1\<rparr> # rest', ex, st'))
         | (ex, st2) \<Rightarrow> (item\<lparr>attempts := attempts item + 1\<rparr> # rest, ex, st2)))"
  by (simp add: deliver_def Let_def split: prod.splits sum.splits loop_exit.splits)

declare process_items.simps(2) [simp del]

lemma deliver_eq:
  "deliver env item st =
     (let d1 = stored_after (pdb st) (item_id item) (attempt_update (attempts item)) in
      case sendToServer env (length (sent st)) item of
        Inr ack \<Rightarrow>
          (Completed,
           st\<lparr>pdb := stored_after d1 (item_id item) (synced_update (now env)),
              sent := sent st @ [item],
              successItems := successItems st @ [item_id item]\<rparr>)
      | Inl e \<Rightarrow>
          (if is_network_error e then FailFast else Completed,
           st\<lparr>pdb := stored_after d1 (item_id item) (error_update (message e) (now env)),
              sent := sent st @ [item],
              failedItems := failedItems st @ [(item, message e)]\<rparr>))"
  by (simp add: deliver_def try_block_def catch_block_def updateQueueItem_Inr Let_def
      split: sum.splits)

lemma deliver_not_thrown: "fst (deliver env item st) \<noteq> Thrown e"
  by (simp add: deliver_eq Let_def split: sum.splits)

lemma process_items_not_thrown:
  "process_items env xs st = (ys, ex, st') \<Longrightarrow> ex \<noteq> Thrown e"
proof (induction xs arbitrary: st ys ex st')
  case Nil
  then show ?case by auto
next
  case (Cons item rest)
  from Cons.prems Cons.IH deliver_not_thrown [of env "item\<lparr>attempts := attempts item + 1\<rparr>" st e]
  show ?case
    by (simp only: process_items_Cons)
       (auto split: if_splits prod.splits loop_exit.splits)
qed

lemma process_items_append:
  "process_items env (xs @ ys) st =
     (case process_items env xs st of
        (xs', Completed, st1) \<Rightarrow>
          (case process_items env ys st1 of (ys', ex, st2) \<Rightarrow> (xs' @ ys', ex, st2))
      | (xs', ex, st1) \<Rightarrow> (xs' @ ys, ex, st1))"
proof (induction xs arbitrary: st)
  case Nil
  show ?case by (simp split: prod.splits)
next
  case (Cons item rest)
  show ?case
    by (simp only: process_items_Cons append_Cons Cons.IH)
       (auto split: prod.splits loop_exit.splits)
qed

lemma process_items_memory:
  "process_items env xs st = (ys, ex, st') \<Longrightarrow> list_all2 attempted_once xs ys"
proof (induction xs arbitrary: st ys ex st')
  case Nil
  then show ?case by auto
next
  case (Cons item rest)
  have same: "list_all2 attempted_once rest rest"
    by (simp add: list_all2_same attempted_once_def)
  have hd1: "attempted_once item item"
    by (simp add: attempted_once_def)
  have hd2: "\<not> maxRetries \<le> attempts item \<Longrightarrow>
             attempted_once item (item\<lparr>attempts := attempts item + 1\<rparr>)"
    by (simp add: attempted_once_def)
  from Cons.prems Cons.IH same hd1 hd2
  show ?case
    by (simp only: process_items_Cons)
       (auto split: if_splits prod.splits loop_exit.splits)
qed


lemma find_SomeD: "find P xs = Some x \<Longrightarrow> P x \<and> x \<in> set xs"
  by (induction xs) (auto split: if_splits)

lemma store_get_SomeD: "store_get xs k = Some x \<Longrightarrow> item_id x = k \<and> x \<in> set xs"
  unfolding store_get_def by (drule find_SomeD) simp

lemma set_store_put: "set (store_put xs item) \<subseteq> insert item (set xs)"
  by (auto simp: store_put_def)

lemma stored_after_eq:
  "stored_after d k u =
     (if \<not> connected d then d
      else case store_get (syncQueueStore (idb d)) k of
             None \<Rightarrow> d
           | Some item \<Rightarrow>
               d\<lparr>idb := (idb d)\<lparr>syncQueueStore :=
                    store_put (syncQueueStore (idb d)) (object_assign item u)\<rparr>\<rparr>)"
  by (simp add: stored_after_def updateQueueItem_def getItem_def updateItem_def
      split: option.splits)

lemma stored_after_connected [simp]: "connected (stored_after d k u) = connected d"
  by (simp add: stored_after_eq split: option.splits)

lemma stored_after_lastSync [simp]: "lastSync (idb (stored_after d k u)) = lastSync (idb d)"
  by (simp add: stored_after_eq split: option.splits)

lemma stored_after_other_key:
  assumes "u_id u = None" and "k' \<noteq> k"
  shows "store_get (syncQueueStore (idb (stored_after d k u))) k'
           = store_get (syncQueueStore (idb d)) k'"
proof (cases "store_get (syncQueueStore (idb d)) k")
  case None
  then show ?thesis by (simp add: stored_after_eq)
next
  case (Some item)
  then have "item_id item = k" by (simp add: store_get_SomeD)
  with assms(1) have "item_id (object_assign item u) = k"
    by (simp add: object_assign_def or_else_def)
  with Some assms(2) show ?thesis
    by (simp add: stored_after_eq store_get_put)
qed

lemma stored_after_bound:
  assumes "\<forall>x\<in>set (syncQueueStore (idb d)). attempts x \<le> m"
      and "\<And>n. u_attempts u = Some n \<Longrightarrow> n \<le> m"
  shows "\<forall>x\<in>set (syncQueueStore (idb (stored_after d k u))). attempts x \<le> m"
proof (cases "store_get (syncQueueStore (idb d)) k")
  case None
  with assms(1) show ?thesis by (simp add: stored_after_eq)
next
  case (Some item)
  then have "item \<in> set (syncQueueStore (idb d))" by (simp add: store_get_SomeD)
  with assms have "attempts (object_assign item u) \<le> m"
    by (cases "u_attempts u") (auto simp: object_assign_def or_else_def)
  with assms(1) Some set_store_put [of "syncQueueStore (idb d)" "object_assign item u"]
  show ?thesis
    by (auto simp: stored_after_eq)
qed

lemma update_ids [simp]:
  "u_id (attempt_update n) = None" "u_id (synced_update t) = None"
  "u_id (error_update msg t) = None"
  by (simp_all add: attempt_update_def synced_update_def error_update_def no_updates_def)

lemma update_attempts [simp]:
  "u_attempts (attempt_update n) = Some n" "u_attempts (synced_update t) = None"
  "u_attempts (error_update msg t) = None"
  by (simp_all add: attempt_update_def synced_update_def error_update_def no_updates_def)

text \<open>What one delivery does to the locals.\<close>

lemma deliver_facts:
  assumes "deliver env item st = (ex, st')"
  shows "sent st' = sent st @ [item]"
    and "connected (pdb st') = connected (pdb st)"
    and "lastSync (idb (pdb st')) = lastSync (idb (pdb st))"
    and "k \<noteq> item_id item \<Longrightarrow>
           store_get (syncQueueStore (idb (pdb st'))) k = store_get (syncQueueStore (idb (pdb st))) k"
    and "set (successItems st') \<subseteq> insert (item_id item) (set (successItems st))"
    and "set (failedItems st) \<subseteq> set (failedItems st')"
    and "ex = FailFast \<Longrightarrow> failedItems st' \<noteq> []"
    and "ex = Completed \<or> ex = FailFast"
  using assms
  by (auto simp: deliver_eq Let_def stored_after_other_key split: sum.splits if_splits)

lemma deliver_bound:
  assumes "deliver env item st = (ex, st')"
      and "\<forall>x\<in>set (syncQueueStore (idb (pdb st))). attempts x \<le> m"
      and "attempts item \<le> m"
  shows "\<forall>x\<in>set (syncQueueStore (idb (pdb st'))). attempts x \<le> m"
proof -
  let ?d1 = "stored_after (pdb st) (item_id item) (attempt_update (attempts item))"
  have b1: "\<forall>x\<in>set (syncQueueStore (idb ?d1)). attempts x \<le> m"
    using stored_after_bound [OF assms(2), of "attempt_update (attempts item)" "item_id item"]
          assms(3) by simp
  have b2: "\<forall>x\<in>set (syncQueueStore (idb (stored_after ?d1 (item_id item) u))). attempts x \<le> m"
    if "u_attempts u = None" for u
    using stored_after_bound [OF b1, of u "item_id item"] that by simp
  from assms(1) b2 [of "synced_update (now env)"] b2 [of "error_update msg (now env)" for msg]
  show ?thesis
    by (auto simp: deliver_eq Let_def split: sum.splits if_splits)
qed


lemma process_items_Cons_cases:
  assumes "process_items env (item # rest) st = (ys, ex, st')"
  obtains
    (exhausted) rest' where "maxRetries \<le> attempts item"
      and "process_items env rest
             (st\<lparr>failedItems := failedItems st @ [(item, ''Max retries exceeded'')]\<rparr>)
           = (rest', ex, st')"
      and "ys = item # rest'"
  | (continue) st1 rest' where "attempts item < maxRetries"
      and "deliver env (item\<lparr>attempts := attempts item + 1\<rparr>) st = (Completed, st1)"
      and "process_items env rest st1 = (rest', ex, st')"
      and "ys = item\<lparr>attempts := attempts item + 1\<rparr> # rest'"
  | (stop) "attempts item < maxRetries"
      and "deliver env (item\<lparr>attempts := attempts item + 1\<rparr>) st = (FailFast, st')"
      and "ys = item\<lparr>attempts := attempts item + 1\<rparr> # rest"
      and "ex = FailFast"
proof (cases "maxRetries \<le> attempts item")
  case True
  with assms exhausted show ?thesis
    by (simp only: process_items_Cons) (auto split: prod.splits)
next
  case False
  obtain ex1 st1 where d: "deliver env (item\<lparr>attempts := attempts item + 1\<rparr>) st = (ex1, st1)"
    by fastforce
  from deliver_facts(8) [OF d] show ?thesis
  proof
    assume "ex1 = Completed"
    with assms False d continue show ?thesis
      by (simp only: process_items_Cons) (auto split: prod.splits)
  next
    assume "ex1 = FailFast"
    with assms False d stop show ?thesis
      by (simp only: process_items_Cons) (auto split: prod.splits)
  qed
qed

lemma process_items_db:
  assumes "process_items env xs st = (ys, ex, st')"
  shows "connected (pdb st') = connected (pdb st) \<and>
         lastSync (idb (pdb st')) = lastSync (idb (pdb st))"
  using assms
proof (induction xs arbitrary: st ys ex st')
  case Nil
  then show ?case by auto
next
  case (Cons item rest)
  from Cons.prems show ?case
  proof (cases rule: process_items_Cons_cases)
    case (exhausted rest')
    from Cons.IH [OF exhausted(2)] show ?thesis by simp
  next
    case (continue st1 rest')
    from Cons.IH [OF continue(3)] deliver_facts(2,3) [OF continue(2)] show ?thesis by simp
  next
    case stop
    from deliver_facts(2,3) [OF stop(2)] show ?thesis by simp
  qed
qed

lemma process_items_other_key:
  assumes "process_items env xs st = (ys, ex, st')"
      and "\<forall>x\<in>set xs. attempts x < maxRetries \<longrightarrow> item_id x \<noteq> k"
  shows "store_get (syncQueueStore (idb (pdb st'))) k = store_get (syncQueueStore (idb (pdb st))) k"
  using assms
proof (induction xs arbitrary: st ys ex st')
  case Nil
  then show ?case by auto
next
  case (Cons item rest)
  from Cons.prems(1) show ?case
  proof (cases rule: process_items_Cons_cases)
    case (exhausted rest')
    from Cons.IH [OF exhausted(2)] Cons.prems(2) show ?thesis by simp
  next
    case (continue st1 rest')
    from continue(1) Cons.prems(2) have "k \<noteq> item_id (item\<lparr>attempts := attempts item + 1\<rparr>)"
      by auto
    from deliver_facts(4) [OF continue(2) this] Cons.IH [OF continue(3)] Cons.prems(2)
    show ?thesis by simp
  next
    case stop
    from stop(1) Cons.prems(2) have "k \<noteq> item_id (item\<lparr>attempts := attempts item + 1\<rparr>)"
      by auto
    from deliver_facts(4) [OF stop(2) this] show ?thesis by simp
  qed
qed

lemma process_items_success:
  assumes "process_items env xs st = (ys, ex, st')"
      and "k \<in> set (successItems st')"
  shows "k \<in> set (successItems st) \<or> (\<exists>x\<in>set xs. attempts x < maxRetries \<and> item_id x = k)"
  using assms
proof (induction xs arbitrary: st ys ex st')
  case Nil
  then show ?case by auto
next
  case (Cons item rest)
  from Cons.prems(1) show ?case
  proof (cases rule: process_items_Cons_cases)
    case (exhausted rest')
    from Cons.IH [OF exhausted(2) Cons.prems(2)] show ?thesis by auto
  next
    case (continue st1 rest')
    from Cons.IH [OF continue(3) Cons.prems(2)] deliver_facts(5) [OF continue(2)] continue(1)
    show ?thesis by auto
  next
    case stop
    from deliver_facts(5) [OF stop(2)] Cons.prems(2) stop(1) show ?thesis by auto
  qed
qed

lemma process_items_sent:
  assumes "process_items env xs st = (ys, ex, st')"
      and "y \<in> set (sent st')"
  shows "y \<in> set (sent st) \<or>
         (\<exists>x\<in>set xs. attempts x < maxRetries \<and> y = x\<lparr>attempts := attempts x + 1\<rparr>)"
  using assms
proof (induction xs arbitrary: st ys ex st')
  case Nil
  then show ?case by auto
next
  case (Cons item rest)
  from Cons.prems(1) show ?case
  proof (cases rule: process_items_Cons_cases)
    case (exhausted rest')
    from Cons.IH [OF exhausted(2) Cons.prems(2)] show ?thesis by auto
  next
    case (continue st1 rest')
    from Cons.IH [OF continue(3) Cons.prems(2)] deliver_facts(1) [OF continue(2)] continue(1)
    show ?thesis by auto
  next
    case stop
    from deliver_facts(1) [OF stop(2)] Cons.prems(2) stop(1) show ?thesis by auto
  qed
qed

lemma process_items_failed_mono:
  assumes "process_items env xs st = (ys, ex, st')"
  shows "set (failedItems st) \<subseteq> set (failedItems st')"
  using assms
proof (induction xs arbitrary: st ys ex st')
  case Nil
  then show ?case by auto
next
  case (Cons item rest)
  from Cons.prems(1) show ?case
  proof (cases rule: process_items_Cons_cases)
    case (exhausted rest')
    from Cons.IH [OF exhausted(2)] show ?thesis by auto
  next
    case (continue st1 rest')
    from Cons.IH [OF continue(3)] deliver_facts(6) [OF continue(2)] show ?thesis by auto
  next
    case stop
    from deliver_facts(6) [OF stop(2)] show ?thesis by auto
  qed
qed

lemma process_items_fail_fast:
  assumes "process_items env xs st = (ys, ex, st')"
      and "ex = FailFast"
  shows "failedItems st' \<noteq> []"
  using assms
proof (induction xs arbitrary: st ys ex st')
  case Nil
  then show ?case by auto
next
  case (Cons item rest)
  from Cons.prems(1) show ?case
  proof (cases rule: process_items_Cons_cases)
    case (exhausted rest')
    from Cons.IH [OF exhausted(2) Cons.prems(2)] show ?thesis .
  next
    case (continue st1 rest')
    from Cons.IH [OF continue(3) Cons.prems(2)] show ?thesis .
  next
    case stop
    from deliver_facts(7) [OF stop(2)] show ?thesis by simp
  qed
qed

lemma process_items_exhausted_kept:
  assumes "process_items env xs st = (ys, ex, st')"
      and "x \<in> set xs" and "maxRetries \<le> attempts x"
  shows "x \<in> set ys"
  using assms
proof (induction xs arbitrary: st ys ex st')
  case Nil
  then show ?case by auto
next
  case (Cons item rest)
  from Cons.prems(1) show ?case
  proof (cases rule: process_items_Cons_cases)
    case (exhausted rest')
    from Cons.IH [OF exhausted(2)] Cons.prems(2,3) exhausted(3) show ?thesis by auto
  next
    case (continue st1 rest')
    from Cons.IH [OF continue(3)] Cons.prems(2,3) continue(1,4) show ?thesis by auto
  next
    case stop
    from Cons.prems(2,3) stop(1,3) show ?thesis by auto
  qed
qed

lemma process_items_store_bound:
  assumes "process_items env xs st = (ys, ex, st')"
      and "\<forall>x\<in>set (syncQueueStore (idb (pdb st))). attempts x \<le> maxRetries"
  shows "\<forall>x\<in>set (syncQueueStore (idb (pdb st'))). attempts x \<le> maxRetries"
  using assms
proof (induction xs arbitrary: st ys ex st')
  case Nil
  then show ?case by auto
next
  case (Cons item rest)
  from Cons.prems(1) show ?case
  proof (cases rule: process_items_Cons_cases)
    case (exhausted rest')
    from Cons.IH [OF exhausted(2)] Cons.prems(2) show ?thesis by simp
  next
    case (continue st1 rest')
    from continue(1) have "attempts (item\<lparr>attempts := attempts item + 1\<rparr>) \<le> maxRetries" by simp
    from Cons.IH [OF continue(3) deliver_bound [OF continue(2) Cons.prems(2) this]]
    show ?thesis .
  next
    case stop
    from stop(1) have "attempts (item\<lparr>attempts := attempts item + 1\<rparr>) \<le> maxRetries" by simp
    from deliver_bound [OF stop(2) Cons.prems(2) this] show ?thesis .
  qed
qed


lemma processQueue_skip:
  "syncInProgress s \<or> syncQueue s = [] \<or> \<not> online env \<Longrightarrow> processQueue env s = (Inr (), s)"
  by (auto simp: processQueue_def)

lemma processQueue_pass:
  assumes "\<not> syncInProgress s" and "syncQueue s \<noteq> []" and "online env"
      and "process_items env (syncQueue s) (init_pass (agriDB s)) = (items, ex, st)"
  shows "snd (processQueue env s) = finished_pass env s items st"
proof -
  from process_items_not_thrown [OF assms(4)] have "\<And>e. ex \<noteq> Thrown e" .
  then have "ex = Completed \<or> ex = FailFast" by (cases ex) auto
  with assms show ?thesis
    by (auto simp: processQueue_def finished_pass_def scheduleRetry_def
        setSetting_lastSync_def Let_def)
qed

section \<open>Claims about the drain pass\<close>

lemma network_messages:
  "is_network_error (JsError n ''Network request failed'')"
  "\<not> is_network_error (JsError n ''Server timeout'')"
  "\<not> is_network_error (JsError n ''Invalid data format'')"
  "\<not> is_network_error (JsError n ''Authentication required'')"
  by (simp_all add: is_network_error_def)

lemma sample_fail_fast_pass:
  "process_items (failing_env True ''Network request failed'')
      [sample_item ''k1'' 0, sample_item ''k2'' n] (init_pass d)
   = ([sample_item ''k1'' 1, sample_item ''k2'' n], FailFast,
      \<lparr>pdb = stored_after (stored_after d ''k1'' (attempt_update 1))
               ''k1'' (error_update ''Network request failed'' 7),
       successItems = [],
       failedItems = [(sample_item ''k1'' 1, ''Network request failed'')],
       sent = [sample_item ''k1'' 1]\<rparr>)"
  by (simp add: process_items_Cons deliver_eq maxRetries_def failing_env_def network_messages
      sample_item_def init_pass_def Let_def)

lemma distinct_ids_eq:
  "distinct (map item_id xs) \<Longrightarrow> a \<in> set xs \<Longrightarrow> b \<in> set xs \<Longrightarrow> item_id a = item_id b \<Longrightarrow> a = b"
  by (meson distinct_map inj_onD)

text \<open>
  C1 (as amended). When the pass reaches an item that has attempts left and its delivery
  fails, the pass stops at once exactly if the message of the error contains
  \<open>Network\<close> or \<open>Failed to fetch\<close>: the items after it are handed to no delivery,
  stay in the queue as they were, and their stored copies are not written. After any
  other failure the pass records the failure and goes on with the next item. Of the
  four errors of the endpoint only \<open>Network request failed\<close> stops the pass;
  \<open>Server timeout\<close>, \<open>Invalid data format\<close> and \<open>Authentication required\<close> do not.
\<close>

theorem network_error_stops_pass:
  assumes "process_items env pre st = (pre', Completed, st1)"
      and "attempts x < maxRetries"
      and "sendToServer env (length (sent st1)) (x\<lparr>attempts := attempts x + 1\<rparr>) = Inl e"
  shows "(is_network_error e \<longrightarrow>
            (let r = process_items env (pre @ x # post) st in
               fst r = pre' @ x\<lparr>attempts := attempts x + 1\<rparr> # post \<and>
               fst (snd r) = FailFast \<and>
               sent (snd (snd r)) = sent st1 @ [x\<lparr>attempts := attempts x + 1\<rparr>] \<and>
               (\<forall>k. k \<noteq> item_id x \<longrightarrow>
                  store_get (syncQueueStore (idb (pdb (snd (snd r))))) k
                    = store_get (syncQueueStore (idb (pdb st1))) k))) \<and>
         (\<not> is_network_error e \<longrightarrow>
            (let st2 = snd (deliver env (x\<lparr>attempts := attempts x + 1\<rparr>) st1) in
               sent st2 = sent st1 @ [x\<lparr>attempts := attempts x + 1\<rparr>] \<and>
               failedItems st2 = failedItems st1 @ [(x\<lparr>attempts := attempts x + 1\<rparr>, message e)] \<and>
               process_items env (pre @ x # post) st =
                 (case process_items env post st2 of
                    (post', ex, st3) \<Rightarrow> (pre' @ x\<lparr>attempts := attempts x + 1\<rparr> # post', ex, st3)))) \<and>
         is_network_error (JsError n ''Network request failed'') \<and>
         \<not> is_network_error (JsError n ''Server timeout'') \<and>
         \<not> is_network_error (JsError n ''Invalid data format'') \<and>
         \<not> is_network_error (JsError n ''Authentication required'')"
proof -
  let ?x1 = "x\<lparr>attempts := attempts x + 1\<rparr>"
  obtain ex2 st2 where d: "deliver env ?x1 st1 = (ex2, st2)" by fastforce
  from d assms(3) have ex2: "ex2 = (if is_network_error e then FailFast else Completed)"
    and failed: "failedItems st2 = failedItems st1 @ [(?x1, message e)]"
    by (auto simp: deliver_eq Let_def)
  from assms(2) have live: "\<not> maxRetries \<le> attempts x" by simp
  have stop: ?thesis if net: "is_network_error e"
  proof -
    from assms(1) live d ex2 net
    have "process_items env (pre @ x # post) st = (pre' @ ?x1 # post, FailFast, st2)"
      by (simp add: process_items_append process_items_Cons)
    with deliver_facts(1,4) [OF d] net show ?thesis
      by (simp add: network_messages Let_def)
  qed
  have continue: ?thesis if other: "\<not> is_network_error e"
  proof -
    from assms(1) live d ex2 other
    have "process_items env (pre @ x # post) st =
            (case process_items env post st2 of
               (post', ex, st3) \<Rightarrow> (pre' @ ?x1 # post', ex, st3))"
      by (simp add: process_items_append process_items_Cons split: prod.splits)
    with deliver_facts(1) [OF d] failed d other show ?thesis
      by (simp add: network_messages Let_def)
  qed
  from stop continue show ?thesis by blast
qed

theorem network_error_stops_pass_witness:
  "attempts (sample_item ''k1'' 0) < maxRetries \<and>
   is_network_error (JsError ''Error'' ''Network request failed'') \<and>
   (let r = process_items (failing_env True ''Network request failed'')
              ([] @ sample_item ''k1'' 0 # [sample_item ''k2'' 0])
              (init_pass (sample_db [sample_item ''k1'' 0, sample_item ''k2'' 0]))
    in fst r = [sample_item ''k1'' 1, sample_item ''k2'' 0] \<and>
       fst (snd r) = FailFast \<and>
       sent (snd (snd r)) = [sample_item ''k1'' 1])"
proof -
  let ?env = "failing_env True ''Network request failed''"
  let ?st = "init_pass (sample_db [sample_item ''k1'' 0, sample_item ''k2'' 0])"
  have reach: "process_items ?env [] ?st = ([], Completed, ?st)" by simp
  have live: "attempts (sample_item ''k1'' 0) < maxRetries"
    by (simp add: sample_item_def maxRetries_def)
  have rejected: "sendToServer ?env (length (sent ?st)) ((sample_item ''k1'' 0)\<lparr>attempts := attempts (sample_item ''k1'' 0) + 1\<rparr>)
          = Inl (JsError ''Error'' ''Network request failed'')"
    by (simp add: failing_env_def)
  have bumped: "(sample_item ''k1'' 0)\<lparr>attempts := attempts (sample_item ''k1'' 0) + 1\<rparr> = sample_item ''k1'' 1"
    by (simp add: sample_item_def)
  from network_error_stops_pass [OF reach live rejected, of "[sample_item ''k2'' 0]" "''Error''"]
       live bumped
  show ?thesis by (simp add: Let_def init_pass_def)
qed

text \<open>The first delivery fails with the timeout error and the second item is delivered
  all the same.\<close>

theorem timeout_continues_pass_counterexample:
  "sendToServer (failing_env True ''Server timeout'') 0 (sample_item ''k1'' 1)
     = Inl (JsError ''Error'' ''Server timeout'') \<and>
   sent (snd (snd (process_items (failing_env True ''Server timeout'')
                     [sample_item ''k1'' 0, sample_item ''k2'' 0]
                     (init_pass (sample_db [sample_item ''k1'' 0, sample_item ''k2'' 0])))))
     = [sample_item ''k1'' 1, sample_item ''k2'' 1]"
  by (simp add: process_items_Cons deliver_eq maxRetries_def failing_env_def network_messages
      sample_item_def init_pass_def Let_def)

text \<open>
  C3 (as amended). In a pass that runs over a queue of distinct ids, an item whose
  attempts have reached \<open>maxRetries\<close> is handed to no delivery, stays in the in-memory
  queue unchanged (same attempts, same status), and its stored copy is neither written
  nor deleted. It is put on the list of failed items if the pass reaches it, that is,
  if the loop over the items before it runs to its end without a network error.
\<close>

theorem exhausted_item_skipped:
  assumes queue: "syncQueue s = pre @ x # post"
      and ids: "distinct (map item_id (syncQueue s))"
      and spent: "maxRetries \<le> attempts x"
      and idle: "\<not> syncInProgress s"
      and on: "online env"
  shows "(let r = process_items env (syncQueue s) (init_pass (agriDB s));
              s' = snd (processQueue env s) in
            (\<forall>y\<in>set (sent (snd (snd r))). item_id y \<noteq> item_id x) \<and>
            x \<in> set (syncQueue s') \<and>
            getItem (agriDB s') (item_id x) = getItem (agriDB s) (item_id x) \<and>
            (fst (snd (process_items env pre (init_pass (agriDB s)))) = Completed \<longrightarrow>
               (x, ''Max retries exceeded'') \<in> set (failedItems (snd (snd r)))))"
proof -
  obtain items ex st where r: "process_items env (syncQueue s) (init_pass (agriDB s)) = (items, ex, st)"
    by (metis prod_cases3)
  from queue have x_in: "x \<in> set (syncQueue s)" and some: "syncQueue s \<noteq> []" by auto
  have others: "\<forall>z\<in>set (syncQueue s). attempts z < maxRetries \<longrightarrow> item_id z \<noteq> item_id x"
    using distinct_ids_eq [OF ids _ x_in] spent by fastforce
  have not_sent: "\<forall>y\<in>set (sent st). item_id y \<noteq> item_id x"
  proof
    fix y assume "y \<in> set (sent st)"
    from process_items_sent [OF r this] others show "item_id y \<noteq> item_id x"
      by (auto simp: init_pass_def)
  qed
  have not_synced: "item_id x \<notin> set (successItems st)"
  proof
    assume "item_id x \<in> set (successItems st)"
    from process_items_success [OF r this] others show False
      by (auto simp: init_pass_def)
  qed
  from process_items_exhausted_kept [OF r x_in spent] not_synced
  have kept: "x \<in> set (syncQueue (finished_pass env s items st))"
    by (simp add: finished_pass_def)
  from process_items_other_key [OF r others] process_items_db [OF r]
  have stored: "getItem (agriDB (finished_pass env s items st)) (item_id x)
                  = getItem (agriDB s) (item_id x)"
    by (simp add: finished_pass_def getItem_def init_pass_def)
  have reported: "(x, ''Max retries exceeded'') \<in> set (failedItems st)"
    if "fst (snd (process_items env pre (init_pass (agriDB s)))) = Completed"
  proof -
    from that obtain pre' st1 where p: "process_items env pre (init_pass (agriDB s)) = (pre', Completed, st1)"
      by (metis prod.collapse)
    obtain post' ex' st2 where q: "process_items env post
        (st1\<lparr>failedItems := failedItems st1 @ [(x, ''Max retries exceeded'')]\<rparr>) = (post', ex', st2)"
      by (metis prod_cases3)
    from r queue p q spent have "st = st2"
      by (simp add: process_items_append process_items_Cons)
    with process_items_failed_mono [OF q] show ?thesis by auto
  qed
  from processQueue_pass [OF idle some on r] r not_sent kept stored reported
  show ?thesis by (simp add: Let_def)
qed

theorem exhausted_item_skipped_witness:
  "distinct (map item_id (syncQueue (sample_sync [sample_item ''k1'' 0, sample_item ''k2'' 3]))) \<and>
   maxRetries \<le> attempts (sample_item ''k2'' 3) \<and>
   sample_item ''k2'' 3 \<in> set (syncQueue (snd (processQueue (failing_env True ''Server timeout'')
        (sample_sync [sample_item ''k1'' 0, sample_item ''k2'' 3])))) \<and>
   (sample_item ''k2'' 3, ''Max retries exceeded'')
     \<in> set (failedItems (snd (snd (process_items (failing_env True ''Server timeout'')
          (syncQueue (sample_sync [sample_item ''k1'' 0, sample_item ''k2'' 3]))
          (init_pass (agriDB (sample_sync [sample_item ''k1'' 0, sample_item ''k2'' 3])))))))"
proof -
  let ?s = "sample_sync [sample_item ''k1'' 0, sample_item ''k2'' 3]"
  let ?env = "failing_env True ''Server timeout''"
  have queue: "syncQueue ?s = [sample_item ''k1'' 0] @ sample_item ''k2'' 3 # []"
    by (simp add: sample_sync_def)
  have ids: "distinct (map item_id (syncQueue ?s))"
    by (simp add: sample_sync_def sample_item_def)
  have spent: "maxRetries \<le> attempts (sample_item ''k2'' 3)"
    by (simp add: sample_item_def maxRetries_def)
  have idle: "\<not> syncInProgress ?s" and on: "online ?env"
    by (simp_all add: sample_sync_def failing_env_def)
  have reached: "fst (snd (process_items ?env [sample_item ''k1'' 0] (init_pass (agriDB ?s)))) = Completed"
    by (simp add: process_items_Cons deliver_eq maxRetries_def failing_env_def network_messages
        sample_item_def Let_def)
  from exhausted_item_skipped [OF queue ids spent idle on] ids spent reached
  show ?thesis by (simp add: Let_def)
qed

text \<open>The first item fails with a network error, the pass stops, and the exhausted second
  item is not in the list of failed items.\<close>

theorem exhausted_item_unreported_counterexample:
  "maxRetries \<le> attempts (sample_item ''k2'' 3) \<and>
   failedItems (snd (snd (process_items (failing_env True ''Network request failed'')
        [sample_item ''k1'' 0, sample_item ''k2'' 3]
        (init_pass (sample_db [sample_item ''k1'' 0, sample_item ''k2'' 3])))))
     = [(sample_item ''k1'' 1, ''Network request failed'')]"
proof -
  have "maxRetries \<le> attempts (sample_item ''k2'' 3)"
    by (simp add: sample_item_def maxRetries_def)
  then show ?thesis by (simp add: sample_fail_fast_pass)
qed

subsection \<open>The pass step by step\<close>

lemma processQueue_flag_clear:
  assumes "\<not> syncInProgress s"
  shows "\<not> syncInProgress (snd (processQueue env s))"
proof (cases "syncQueue s = [] \<or> \<not> online env")
  case True
  with assms show ?thesis by (simp add: processQueue_skip)
next
  case False
  obtain items ex st where r: "process_items env (syncQueue s) (init_pass (agriDB s)) = (items, ex, st)"
    by (metis prod_cases3)
  from assms False processQueue_pass [OF _ _ _ r] show ?thesis
    by (simp add: finished_pass_def)
qed

lemma process_item_eq:
  "process_item env item st =
     (if maxRetries \<le> attempts item then
        (item, Completed, st\<lparr>failedItems := failedItems st @ [(item, ''Max retries exceeded'')]\<rparr>)
      else
        (case deliver env (item\<lparr>attempts := attempts item + 1\<rparr>) st of
           (ex, st2) \<Rightarrow> (item\<lparr>attempts := attempts item + 1\<rparr>, ex, st2)))"
  by (simp add: process_item_def deliver_def Let_def split: prod.splits sum.splits)

lemma process_item_not_thrown: "process_item env item st = (item', ex, st') \<Longrightarrow> ex \<noteq> Thrown e"
  using deliver_not_thrown [of env "item\<lparr>attempts := attempts item + 1\<rparr>" st e]
  by (auto simp: process_item_eq split: if_splits prod.splits)

lemma process_item_exits:
  assumes "process_item env item st = (item', ex, st')"
  shows "ex = Completed \<or> ex = FailFast"
  using process_item_not_thrown [OF assms] by (cases ex) auto

text \<open>The loop is the body, item after item.\<close>

lemma process_items_by_item:
  "process_items env (item # rest) st =
     (case process_item env item st of
        (item', Completed, st1) \<Rightarrow>
          (case process_items env rest st1 of (rest', ex, st') \<Rightarrow> (item' # rest', ex, st'))
      | (item', ex, st1) \<Rightarrow> (item' # rest, ex, st1))"
  by (simp add: process_items_Cons process_item_eq split: prod.splits loop_exit.splits)

lemma end_pass_flag [simp]: "\<not> syncInProgress (end_pass env s st)"
  by (simp add: end_pass_def scheduleRetry_def Let_def split: sum.splits)

lemma end_pass_finished:
  "end_pass env (s\<lparr>syncInProgress := flag, syncQueue := items, agriDB := pdb st\<rparr>) st
     = finished_pass env s items st"
  by (simp add: end_pass_def finished_pass_def scheduleRetry_def setSetting_lastSync_def Let_def)

lemma begin_pass_single_flight:
  "single_flight sys \<Longrightarrow> single_flight (begin_pass env sys)"
  by (auto simp: single_flight_def begin_pass_def Let_def)

lemma resume_pass_single_flight:
  assumes "single_flight sys"
  shows "single_flight (resume_pass k env sys)"
proof (cases "length (passes sys) \<le> k")
  case True
  with assms show ?thesis by (simp add: resume_pass_def)
next
  case False
  with assms have one: "length (passes sys) = 1" and k: "k = 0" and flag: "syncInProgress (app sys)"
    by (auto simp: single_flight_def)
  then have none: "take k (passes sys) @ drop (Suc k) (passes sys) = []" by simp
  show ?thesis
    using one k flag none
    by (auto simp: resume_pass_def single_flight_def Let_def
        split: prod.splits loop_exit.splits)
qed

lemma run_events_single_flight:
  "single_flight sys \<Longrightarrow> single_flight (run_events evs sys)"
proof (induction evs arbitrary: sys)
  case Nil
  then show ?case by simp
next
  case (Cons ev evs)
  have "single_flight (fire ev sys)"
    using Cons.prems by (cases ev) (simp_all add: begin_pass_single_flight resume_pass_single_flight)
  from Cons.IH [OF this] show ?case by simp
qed

lemma resume_pass_ends_clear:
  assumes "passes sys \<noteq> []" and "passes (resume_pass 0 env sys) = []"
  shows "\<not> syncInProgress (app (resume_pass 0 env sys))"
proof -
  let ?p = "passes sys ! 0" and ?s = "app sys"
  from assms(1) have len: "\<not> length (passes sys) \<le> 0" by simp
  show ?thesis
  proof (cases "cursor ?p < length (syncQueue ?s)")
    case False
    with len show ?thesis by (simp add: resume_pass_def Let_def)
  next
    case True
    obtain item' ex st where r: "process_item env (syncQueue ?s ! cursor ?p) ((locals ?p)\<lparr>pdb := agriDB ?s\<rparr>) = (item', ex, st)"
      by (metis prod_cases3)
    from process_item_exits [OF r] show ?thesis
    proof
      assume "ex = Completed"
      with len True r assms show ?thesis by (simp add: resume_pass_def Let_def)
    next
      assume "ex = FailFast"
      with len True r show ?thesis by (simp add: resume_pass_def Let_def)
    qed
  qed
qed

lemma resumes_idle:
  "passes sys = [] \<Longrightarrow> run_events (replicate n (Resume 0 env)) sys = sys"
  by (induction n) (simp_all add: resume_pass_def)

lemma resumes_run_pass:
  assumes "passes sys = [\<lparr>cursor = c, locals = st\<rparr>]"
      and "c \<le> length (syncQueue (app sys))"
      and "pdb st = agriDB (app sys)"
      and "process_items env (drop c (syncQueue (app sys))) st = (ys, ex, st')"
      and "length (syncQueue (app sys)) - c < n"
  shows "run_events (replicate n (Resume 0 env)) sys =
           \<lparr>app = end_pass env ((app sys)\<lparr>syncQueue := take c (syncQueue (app sys)) @ ys,
                                         agriDB := pdb st'\<rparr>) st',
            passes = []\<rparr>"
  using assms
proof (induction "length (syncQueue (app sys)) - c" arbitrary: sys c st ys n)
  case 0
  then have c: "c = length (syncQueue (app sys))" by simp
  with "0.prems" have ys: "ys = []" and st': "st' = st" by auto
  from "0.prems"(5) obtain m where n: "n = Suc m" by (cases n) auto
  from "0.prems"(3) have loc: "st\<lparr>pdb := agriDB (app sys)\<rparr> = st" by simp
  have "resume_pass 0 env sys = \<lparr>app = end_pass env (app sys) st, passes = []\<rparr>"
    using "0.prems"(1) c loc by (simp add: resume_pass_def Let_def)
  with n ys st' "0.prems"(3) c show ?case
    by (simp add: resumes_idle)
next
  case (Suc d)
  let ?q = "syncQueue (app sys)"
  from Suc.hyps(2) have c: "c < length ?q" by simp
  then have dr: "drop c ?q = ?q ! c # drop (Suc c) ?q"
    by (simp add: Cons_nth_drop_Suc)
  obtain x' ex1 st1 where it: "process_item env (?q ! c) st = (x', ex1, st1)"
    by (metis prod_cases3)
  from Suc.prems(5) obtain m where n: "n = Suc m" by (cases n) auto
  from Suc.prems(3) have loc: "st\<lparr>pdb := agriDB (app sys)\<rparr> = st" by simp
  have upd: "?q[c := x'] = take c ?q @ x' # drop (Suc c) ?q"
    using c by (simp add: upd_conv_take_nth_drop)
  from process_item_exits [OF it] show ?case
  proof
    assume goes: "ex1 = Completed"
    obtain rest' where rest: "process_items env (drop (Suc c) ?q) st1 = (rest', ex, st')"
      and ys: "ys = x' # rest'"
      using Suc.prems(4) it goes
      by (simp add: dr process_items_by_item split: prod.splits)
    let ?sys1 = "\<lparr>app = (app sys)\<lparr>syncQueue := ?q[c := x'], agriDB := pdb st1\<rparr>,
                   passes = [\<lparr>cursor = Suc c, locals = st1\<rparr>]\<rparr>"
    have step: "resume_pass 0 env sys = ?sys1"
      using Suc.prems(1) c it goes loc by (simp add: resume_pass_def Let_def)
    have "run_events (replicate m (Resume 0 env)) ?sys1 =
            \<lparr>app = end_pass env ((app ?sys1)\<lparr>syncQueue := take (Suc c) (syncQueue (app ?sys1)) @ rest',
                                             agriDB := pdb st'\<rparr>) st',
             passes = []\<rparr>"
    proof (rule Suc.hyps(1))
      show "d = length (syncQueue (app ?sys1)) - Suc c" using Suc.hyps(2) by simp
      show "passes ?sys1 = [\<lparr>cursor = Suc c, locals = st1\<rparr>]" by simp
      show "Suc c \<le> length (syncQueue (app ?sys1))" using c by simp
      show "pdb st1 = agriDB (app ?sys1)" by simp
      show "process_items env (drop (Suc c) (syncQueue (app ?sys1))) st1 = (rest', ex, st')"
        using rest by simp
      show "length (syncQueue (app ?sys1)) - Suc c < m" using Suc.prems(5) n c by simp
    qed
    moreover have "take (Suc c) (?q[c := x']) @ rest' = take c ?q @ ys"
      using c ys by (simp add: upd take_Suc_conv_app_nth)
    ultimately show ?thesis
      using n step by simp
  next
    assume stop: "ex1 = FailFast"
    from Suc.prems(4) it stop have ys: "ys = x' # drop (Suc c) ?q" and st': "st' = st1"
      by (simp_all add: dr process_items_by_item)
    have step: "resume_pass 0 env sys =
        \<lparr>app = end_pass env ((app sys)\<lparr>syncQueue := ?q[c := x'], agriDB := pdb st1\<rparr>) st1,
         passes = []\<rparr>"
      using Suc.prems(1) c it stop loc by (simp add: resume_pass_def Let_def)
    with n ys st' upd show ?thesis
      by (simp add: resumes_idle)
  qed
qed

lemma uninterrupted_pass:
  assumes "passes sys = []"
  shows "run_events (Trigger env # replicate (Suc (length (syncQueue (app sys)))) (Resume 0 env)) sys
           = \<lparr>app = snd (processQueue env (app sys)), passes = []\<rparr>"
proof (cases "syncInProgress (app sys) \<or> syncQueue (app sys) = [] \<or> \<not> online env")
  case True
  then have "begin_pass env sys = sys" by (simp add: begin_pass_def)
  moreover have "run_events (replicate (Suc (length (syncQueue (app sys)))) (Resume 0 env)) sys = sys"
    by (rule resumes_idle [OF assms])
  ultimately show ?thesis
    using True assms by (simp add: processQueue_skip)
next
  case False
  let ?s = "app sys"
  let ?sys1 = "\<lparr>app = ?s\<lparr>syncInProgress := True\<rparr>,
                 passes = [\<lparr>cursor = 0, locals = init_pass (agriDB ?s)\<rparr>]\<rparr>"
  obtain items ex st where r: "process_items env (syncQueue ?s) (init_pass (agriDB ?s)) = (items, ex, st)"
    by (metis prod_cases3)
  have start: "begin_pass env sys = ?sys1"
    using False assms by (simp add: begin_pass_def Let_def)
  have "run_events (replicate (Suc (length (syncQueue ?s))) (Resume 0 env)) ?sys1 =
          \<lparr>app = end_pass env ((app ?sys1)\<lparr>syncQueue := take 0 (syncQueue (app ?sys1)) @ items,
                                           agriDB := pdb st\<rparr>) st,
           passes = []\<rparr>"
    by (rule resumes_run_pass) (use r in \<open>simp_all add: init_pass_def\<close>)
  with start end_pass_finished [where env = env and s = ?s and flag = True and items = items and st = st] processQueue_pass [OF _ _ _ r] False
  show ?thesis by simp
qed

text \<open>
  C4. With the pass cut into its call, its items and its end: start where at most one
  pass is under way and the flag is set while one is. Then after every sequence of
  calls of \<open>processQueue\<close> and of resumptions of passes, at most one pass is under way.
  A call that arrives while a pass is under way, or while the flag is set, the queue is
  empty or the browser is offline, returns at once and changes nothing, no queue item
  either. When the pass ends the flag is clear, and a call that then finds the queue
  not empty and the browser online starts the next pass. A pass that no call interrupts
  leaves the instance as \<open>processQueue\<close> run in one piece does.
\<close>

theorem single_flight_at_every_step:
  assumes "single_flight sys"
  shows "single_flight (run_events evs sys) \<and>
         length (passes (run_events evs sys)) \<le> 1 \<and>
         (passes sys \<noteq> [] \<longrightarrow> begin_pass env sys = sys) \<and>
         (syncInProgress (app sys) \<or> syncQueue (app sys) = [] \<or> \<not> online env \<longrightarrow>
            begin_pass env sys = sys \<and> processQueue env (app sys) = (Inr (), app sys)) \<and>
         (\<not> syncInProgress (app sys) \<and> syncQueue (app sys) \<noteq> [] \<and> online env \<longrightarrow>
            length (passes (begin_pass env sys)) = 1 \<and> syncInProgress (app (begin_pass env sys))) \<and>
         (passes sys \<noteq> [] \<and> passes (resume_pass 0 env sys) = [] \<longrightarrow>
            \<not> syncInProgress (app (resume_pass 0 env sys))) \<and>
         (\<not> syncInProgress (app sys) \<longrightarrow> \<not> syncInProgress (snd (processQueue env (app sys)))) \<and>
         (passes sys = [] \<longrightarrow>
            run_events (Trigger env # replicate (Suc (length (syncQueue (app sys)))) (Resume 0 env)) sys
              = \<lparr>app = snd (processQueue env (app sys)), passes = []\<rparr>)"
proof -
  from run_events_single_flight [OF assms, of evs]
  have inv: "single_flight (run_events evs sys)" .
  then have one: "length (passes (run_events evs sys)) \<le> 1"
    by (simp add: single_flight_def)
  have dropped: "begin_pass env sys = sys" if "passes sys \<noteq> []"
    using assms that by (simp add: single_flight_def begin_pass_def)
  have skipped: "begin_pass env sys = sys \<and> processQueue env (app sys) = (Inr (), app sys)"
    if "syncInProgress (app sys) \<or> syncQueue (app sys) = [] \<or> \<not> online env"
    using that by (simp add: begin_pass_def processQueue_skip)
  have started: "length (passes (begin_pass env sys)) = 1 \<and> syncInProgress (app (begin_pass env sys))"
    if "\<not> syncInProgress (app sys) \<and> syncQueue (app sys) \<noteq> [] \<and> online env"
    using assms that by (auto simp: single_flight_def begin_pass_def Let_def)
  from inv one dropped skipped started resume_pass_ends_clear [of sys env]
       processQueue_flag_clear [of "app sys" env] uninterrupted_pass [of sys env]
  show ?thesis by blast
qed

theorem single_flight_at_every_step_witness:
  "passes \<lparr>app = sample_sync [sample_item ''k1'' 0], passes = []\<rparr> = [] \<and>
   length (passes (run_events [Trigger (failing_env True ''Server timeout''),
                               Trigger (failing_env True ''Server timeout'')]
                     \<lparr>app = sample_sync [sample_item ''k1'' 0], passes = []\<rparr>)) = 1 \<and>
   syncInProgress (app (run_events [Trigger (failing_env True ''Server timeout''),
                                    Resume 0 (failing_env True ''Server timeout''),
                                    Trigger (failing_env True ''Server timeout'')]
                     \<lparr>app = sample_sync [sample_item ''k1'' 0], passes = []\<rparr>)) \<and>
   length (passes (run_events [Trigger (failing_env True ''Server timeout''),
                               Resume 0 (failing_env True ''Server timeout''),
                               Trigger (failing_env True ''Server timeout'')]
                     \<lparr>app = sample_sync [sample_item ''k1'' 0], passes = []\<rparr>)) = 1 \<and>
   run_events [Trigger (failing_env True ''Server timeout''),
               Resume 0 (failing_env True ''Server timeout''),
               Resume 0 (failing_env True ''Server timeout'')]
       \<lparr>app = sample_sync [sample_item ''k1'' 0], passes = []\<rparr>
     = \<lparr>app = snd (processQueue (failing_env True ''Server timeout'')
                       (sample_sync [sample_item ''k1'' 0])),
        passes = []\<rparr> \<and>
   \<not> syncInProgress (snd (processQueue (failing_env True ''Server timeout'')
                             (sample_sync [sample_item ''k1'' 0]))) \<and>
   length (passes (run_events [Trigger (failing_env True ''Server timeout''),
                               Resume 0 (failing_env True ''Server timeout''),
                               Resume 0 (failing_env True ''Server timeout''),
                               Trigger (failing_env True ''Server timeout'')]
                     \<lparr>app = sample_sync [sample_item ''k1'' 0], passes = []\<rparr>)) = 1"
proof -
  let ?e = "failing_env True ''Server timeout''"
  let ?sys = "\<lparr>app = sample_sync [sample_item ''k1'' 0], passes = []\<rparr>"
  have idle: "single_flight ?sys"
    by (simp add: single_flight_def)
  have len: "Suc (length (syncQueue (app ?sys))) = 2"
    by (simp add: sample_sync_def)
  have two: "length (passes (run_events [Trigger ?e, Trigger ?e] ?sys)) = 1"
    by code_simp
  have mid: "syncInProgress (app (run_events [Trigger ?e, Resume 0 ?e, Trigger ?e] ?sys))"
    by code_simp
  have mid_one: "length (passes (run_events [Trigger ?e, Resume 0 ?e, Trigger ?e] ?sys)) = 1"
    by code_simp
  have cleared: "\<not> syncInProgress (snd (processQueue ?e (sample_sync [sample_item ''k1'' 0])))"
    by code_simp
  have again: "length (passes (run_events [Trigger ?e, Resume 0 ?e, Resume 0 ?e, Trigger ?e] ?sys)) = 1"
    by code_simp
  from single_flight_at_every_step [OF idle, of "[Trigger ?e, Trigger ?e]" ?e]
       len two mid mid_one cleared again
  show ?thesis by (simp add: numeral_2_eq_2)
qed

text \<open>
  C7 (as amended). A pass that runs schedules the retry, after \<open>retryDelay\<close> = 5000 ms,
  exactly if its list of failed items is not empty. A pass that stops on a network
  error has that item on the list, so it schedules the retry as well.
\<close>

theorem retry_scheduled_on_any_failure:
  assumes "\<not> syncInProgress s" and "syncQueue s \<noteq> []" and "online env"
      and "process_items env (syncQueue s) (init_pass (agriDB s)) = (items, ex, st)"
  shows "timers (snd (processQueue env s))
           = timers s @ (if failedItems st \<noteq> [] then [retryDelay] else []) \<and>
         (ex = FailFast \<longrightarrow> timers (snd (processQueue env s)) = timers s @ [retryDelay]) \<and>
         retryDelay = 5000"
  using processQueue_pass [OF assms] process_items_fail_fast [OF assms(4)]
  by (simp add: finished_pass_def retryDelay_def)

theorem retry_scheduled_on_any_failure_witness:
  "\<not> syncInProgress (sample_sync [sample_item ''k1'' 0, sample_item ''k2'' 0]) \<and>
   online (failing_env True ''Network request failed'') \<and>
   timers (snd (processQueue (failing_env True ''Network request failed'')
                  (sample_sync [sample_item ''k1'' 0, sample_item ''k2'' 0]))) = [5000]"
proof -
  let ?s = "sample_sync [sample_item ''k1'' 0, sample_item ''k2'' 0]"
  let ?env = "failing_env True ''Network request failed''"
  have idle: "\<not> syncInProgress ?s" and some: "syncQueue ?s \<noteq> []" and on: "online ?env"
    by (simp_all add: sample_sync_def failing_env_def)
  have pass: "process_items ?env (syncQueue ?s) (init_pass (agriDB ?s))
     = ([sample_item ''k1'' 1, sample_item ''k2'' 0], FailFast,
      \<lparr>pdb = stored_after
               (stored_after (sample_db [sample_item ''k1'' 0, sample_item ''k2'' 0]) ''k1'' (attempt_update 1))
               ''k1'' (error_update ''Network request failed'' 7),
       successItems = [],
       failedItems = [(sample_item ''k1'' 1, ''Network request failed'')],
       sent = [sample_item ''k1'' 1]\<rparr>)"
    by (simp add: sample_fail_fast_pass sample_sync_def)
  from retry_scheduled_on_any_failure [OF idle some on pass] idle on
  show ?thesis by (simp add: sample_sync_def)
qed

text \<open>The pass stops on a network error at its first item and schedules the retry.\<close>

theorem fail_fast_schedules_retry_counterexample:
  "fst (snd (process_items (failing_env True ''Network request failed'')
         (syncQueue (sample_sync [sample_item ''k1'' 0, sample_item ''k2'' 0]))
         (init_pass (agriDB (sample_sync [sample_item ''k1'' 0, sample_item ''k2'' 0])))))
     = FailFast \<and>
   timers (sample_sync [sample_item ''k1'' 0, sample_item ''k2'' 0]) = [] \<and>
   timers (snd (processQueue (failing_env True ''Network request failed'')
                  (sample_sync [sample_item ''k1'' 0, sample_item ''k2'' 0]))) = [retryDelay]"
proof -
  let ?s = "sample_sync [sample_item ''k1'' 0, sample_item ''k2'' 0]"
  let ?env = "failing_env True ''Network request failed''"
  have idle: "\<not> syncInProgress ?s" and some: "syncQueue ?s \<noteq> []" and on: "online ?env"
    by (simp_all add: sample_sync_def failing_env_def)
  have pass: "process_items ?env (syncQueue ?s) (init_pass (agriDB ?s))
     = ([sample_item ''k1'' 1, sample_item ''k2'' 0], FailFast,
      \<lparr>pdb = stored_after
               (stored_after (sample_db [sample_item ''k1'' 0, sample_item ''k2'' 0]) ''k1'' (attempt_update 1))
               ''k1'' (error_update ''Network request failed'' 7),
       successItems = [],
       failedItems = [(sample_item ''k1'' 1, ''Network request failed'')],
       sent = [sample_item ''k1'' 1]\<rparr>)"
    by (simp add: sample_fail_fast_pass sample_sync_def)
  from processQueue_pass [OF idle some on pass] pass
  show ?thesis by (simp add: finished_pass_def sample_sync_def)
qed

section \<open>Sequences of operations: the bound on attempts\<close>

lemma attempted_once_bound:
  assumes "list_all2 attempted_once xs ys"
      and "\<forall>x\<in>set xs. attempts x \<le> maxRetries"
  shows "\<forall>y\<in>set ys. attempts y \<le> maxRetries"
  using assms
  by (induction rule: list_all2_induct) (auto simp: attempted_once_def)

lemma processQueue_memory_bound:
  assumes "\<forall>x\<in>set (syncQueue s). attempts x \<le> maxRetries"
  shows "\<forall>x\<in>set (syncQueue (snd (processQueue env s))). attempts x \<le> maxRetries"
proof (cases "syncInProgress s \<or> syncQueue s = [] \<or> \<not> online env")
  case True
  with assms show ?thesis by (simp add: processQueue_skip)
next
  case False
  obtain items ex st where r: "process_items env (syncQueue s) (init_pass (agriDB s)) = (items, ex, st)"
    by (metis prod_cases3)
  from attempted_once_bound [OF process_items_memory [OF r] assms]
       processQueue_pass [OF _ _ _ r] False
  show ?thesis by (simp add: finished_pass_def)
qed

lemma processQueue_store_bound:
  assumes "\<forall>x\<in>set (syncQueueStore (idb (agriDB s))). attempts x \<le> maxRetries"
  shows "\<forall>x\<in>set (syncQueueStore (idb (agriDB (snd (processQueue env s))))). attempts x \<le> maxRetries"
proof (cases "syncInProgress s \<or> syncQueue s = [] \<or> \<not> online env")
  case True
  with assms show ?thesis by (simp add: processQueue_skip)
next
  case False
  obtain items ex st where r: "process_items env (syncQueue s) (init_pass (agriDB s)) = (items, ex, st)"
    by (metis prod_cases3)
  from assms have "\<forall>x\<in>set (syncQueueStore (idb (pdb (init_pass (agriDB s))))). attempts x \<le> maxRetries"
    by (simp add: init_pass_def)
  from process_items_store_bound [OF r this] processQueue_pass [OF _ _ _ r] False
  show ?thesis by (simp add: finished_pass_def)
qed

lemma addToQueue_state:
  "snd (addToQueue env d s) =
     (let enqueued = s\<lparr>syncQueue := syncQueue s @ [new_queue_item env d],
                       agriDB := (case addItem (agriDB s) (new_queue_item env d) of
                                    Inl e \<Rightarrow> agriDB s | Inr d' \<Rightarrow> d')\<rparr>
      in if online env then snd (processQueue env enqueued) else enqueued)"
  by (simp add: addToQueue_def saveQueueItem_def Let_def split: sum.splits)

lemma addItem_store:
  "set (syncQueueStore (idb (case addItem db item of Inl e \<Rightarrow> db | Inr d' \<Rightarrow> d')))
     \<subseteq> insert item (set (syncQueueStore (idb db)))"
  by (auto simp: addItem_def)

lemma apply_op_memory_bound:
  assumes "\<forall>x\<in>set (syncQueue s). attempts x \<le> maxRetries"
  shows "\<forall>x\<in>set (syncQueue (apply_op op s)). attempts x \<le> maxRetries"
proof (cases op)
  case (Enqueue env d)
  let ?enq = "s\<lparr>syncQueue := syncQueue s @ [new_queue_item env d],
                agriDB := (case addItem (agriDB s) (new_queue_item env d) of
                             Inl e \<Rightarrow> agriDB s | Inr d' \<Rightarrow> d')\<rparr>"
  from assms have b: "\<forall>x\<in>set (syncQueue ?enq). attempts x \<le> maxRetries"
    by (auto simp: new_queue_item_def)
  from b processQueue_memory_bound [OF b, of env] Enqueue show ?thesis
    by (simp add: addToQueue_state Let_def)
next
  case (Drain env)
  with processQueue_memory_bound [OF assms, of env] show ?thesis by simp
next
  case (BackgroundSync env)
  with assms show ?thesis by simp
qed

lemma apply_op_store_bound:
  assumes "\<forall>x\<in>set (syncQueueStore (idb (agriDB s))). attempts x \<le> maxRetries"
      and "\<not> is_background_sync op"
  shows "\<forall>x\<in>set (syncQueueStore (idb (agriDB (apply_op op s)))). attempts x \<le> maxRetries"
proof (cases op)
  case (Enqueue env d)
  let ?enq = "s\<lparr>syncQueue := syncQueue s @ [new_queue_item env d],
                agriDB := (case addItem (agriDB s) (new_queue_item env d) of
                             Inl e \<Rightarrow> agriDB s | Inr d' \<Rightarrow> d')\<rparr>"
  from assms(1) addItem_store [of "agriDB s" "new_queue_item env d"]
  have b: "\<forall>x\<in>set (syncQueueStore (idb (agriDB ?enq))). attempts x \<le> maxRetries"
    by (auto simp: new_queue_item_def)
  from b processQueue_store_bound [OF b, of env] Enqueue show ?thesis
    by (simp add: addToQueue_state Let_def)
next
  case (Drain env)
  with processQueue_store_bound [OF assms(1), of env] show ?thesis by simp
next
  case (BackgroundSync env)
  with assms(2) show ?thesis by simp
qed

lemma run_ops_memory_bound:
  "\<forall>x\<in>set (syncQueue s). attempts x \<le> maxRetries \<Longrightarrow>
   \<forall>x\<in>set (syncQueue (run_ops ops s)). attempts x \<le> maxRetries"
proof (induction ops arbitrary: s)
  case Nil
  then show ?case by simp
next
  case (Cons op ops)
  from Cons.IH [OF apply_op_memory_bound [OF Cons.prems]] show ?case by simp
qed

lemma run_ops_store_bound:
  "\<forall>x\<in>set (syncQueueStore (idb (agriDB s))). attempts x \<le> maxRetries \<Longrightarrow>
   \<forall>op\<in>set ops. \<not> is_background_sync op \<Longrightarrow>
   \<forall>x\<in>set (syncQueueStore (idb (agriDB (run_ops ops s)))). attempts x \<le> maxRetries"
proof (induction ops arbitrary: s)
  case Nil
  then show ?case by simp
next
  case (Cons op ops)
  from Cons.prems(2) have "\<not> is_background_sync op" and rest: "\<forall>op\<in>set ops. \<not> is_background_sync op"
    by auto
  from Cons.IH [OF apply_op_store_bound [OF Cons.prems(1) this(1)] rest] show ?case by simp
qed

lemma drain_queue:
  "syncQueue (apply_op (Drain env) s) = syncQueue s \<or>
   syncQueue (apply_op (Drain env) s) =
     filter (\<lambda>x. item_id x \<notin> set (successItems (snd (snd (process_items env (syncQueue s) (init_pass (agriDB s)))))))
       (fst (process_items env (syncQueue s) (init_pass (agriDB s))))"
proof (cases "syncInProgress s \<or> syncQueue s = [] \<or> \<not> online env")
  case True
  then show ?thesis by (simp add: processQueue_skip)
next
  case False
  obtain items ex st where r: "process_items env (syncQueue s) (init_pass (agriDB s)) = (items, ex, st)"
    by (metis prod_cases3)
  from processQueue_pass [OF _ _ _ r] False r show ?thesis
    by (simp add: finished_pass_def)
qed

subsection \<open>In memory\<close>

lemma attempted_once_origin:
  assumes "list_all2 attempted_once xs ys" and "x \<in> set ys"
  shows "\<exists>y\<in>set xs. item_id y = item_id x \<and> attempts y \<le> attempts x"
  using assms
  by (induction rule: list_all2_induct) (auto simp: attempted_once_def)

lemma processQueue_origin:
  assumes "x \<in> set (syncQueue (snd (processQueue env s)))"
  shows "\<exists>y\<in>set (syncQueue s). item_id y = item_id x \<and> attempts y \<le> attempts x"
proof (cases "syncInProgress s \<or> syncQueue s = [] \<or> \<not> online env")
  case True
  with assms show ?thesis by (auto simp: processQueue_skip)
next
  case False
  obtain items ex st where r: "process_items env (syncQueue s) (init_pass (agriDB s)) = (items, ex, st)"
    by (metis prod_cases3)
  from processQueue_pass [OF _ _ _ r] False assms have "x \<in> set items"
    by (simp add: finished_pass_def)
  from attempted_once_origin [OF process_items_memory [OF r] this] show ?thesis .
qed

lemma apply_op_origin:
  assumes "x \<in> set (syncQueue (apply_op op s))"
  shows "item_id x \<in> set (enqueued_ids [op]) \<or>
         (\<exists>y\<in>set (syncQueue s). item_id y = item_id x \<and> attempts y \<le> attempts x)"
proof (cases op)
  case (Enqueue env d)
  let ?enq = "s\<lparr>syncQueue := syncQueue s @ [new_queue_item env d],
                agriDB := (case addItem (agriDB s) (new_queue_item env d) of
                             Inl e \<Rightarrow> agriDB s | Inr d' \<Rightarrow> d')\<rparr>"
  have "\<exists>y\<in>set (syncQueue ?enq). item_id y = item_id x \<and> attempts y \<le> attempts x"
  proof (cases "online env")
    case True
    with assms Enqueue have "x \<in> set (syncQueue (snd (processQueue env ?enq)))"
      by (simp add: addToQueue_state Let_def)
    from processQueue_origin [OF this] show ?thesis .
  next
    case False
    with assms Enqueue have "x \<in> set (syncQueue ?enq)"
      by (simp add: addToQueue_state Let_def)
    then show ?thesis by blast
  qed
  then obtain y where y: "y \<in> set (syncQueue s) \<or> y = new_queue_item env d"
    and same: "item_id y = item_id x" and le: "attempts y \<le> attempts x"
    by auto
  from y show ?thesis
  proof
    assume "y \<in> set (syncQueue s)"
    with same le show ?thesis by blast
  next
    assume "y = new_queue_item env d"
    with same Enqueue show ?thesis by (simp add: new_queue_item_def)
  qed
next
  case (Drain env)
  with assms processQueue_origin [of x env s] show ?thesis by simp
next
  case (BackgroundSync env)
  with assms show ?thesis by auto
qed

lemma enqueued_ids_Cons: "set (enqueued_ids (op # ops)) = set (enqueued_ids [op]) \<union> set (enqueued_ids ops)"
  by (cases op) simp_all

lemma run_ops_origin:
  "x \<in> set (syncQueue (run_ops ops s)) \<Longrightarrow>
   item_id x \<in> set (enqueued_ids ops) \<or>
   (\<exists>y\<in>set (syncQueue s). item_id y = item_id x \<and> attempts y \<le> attempts x)"
proof (induction ops arbitrary: s)
  case Nil
  then show ?case by auto
next
  case (Cons op ops)
  from Cons.prems have "x \<in> set (syncQueue (run_ops ops (apply_op op s)))" by simp
  from Cons.IH [OF this] show ?case
  proof
    assume "item_id x \<in> set (enqueued_ids ops)"
    then show ?thesis by (simp add: enqueued_ids_Cons [of op ops])
  next
    assume "\<exists>y\<in>set (syncQueue (apply_op op s)). item_id y = item_id x \<and> attempts y \<le> attempts x"
    then obtain y where y: "y \<in> set (syncQueue (apply_op op s))"
      and same: "item_id y = item_id x" and le: "attempts y \<le> attempts x" by auto
    from apply_op_origin [OF y] show ?thesis
    proof
      assume "item_id y \<in> set (enqueued_ids [op])"
      with same show ?thesis by (simp add: enqueued_ids_Cons [of op ops])
    next
      assume "\<exists>z\<in>set (syncQueue s). item_id z = item_id y \<and> attempts z \<le> attempts y"
      with same le show ?thesis by (metis order_trans)
    qed
  qed
qed

subsection \<open>In the store\<close>

lemma attempts_kept_iff:
  "attempts_kept before after \<longleftrightarrow>
     (\<forall>k y. store_get before k = Some y \<longrightarrow>
        (\<exists>y'. store_get after k = Some y' \<and> attempts y \<le> attempts y'))"
proof
  assume kept: "attempts_kept before after"
  show "\<forall>k y. store_get before k = Some y \<longrightarrow>
          (\<exists>y'. store_get after k = Some y' \<and> attempts y \<le> attempts y')"
  proof (intro allI impI)
    fix k y assume g: "store_get before k = Some y"
    then have k: "item_id y = k" and "y \<in> set before" by (simp_all add: store_get_SomeD)
    with kept have "case store_get before (item_id y) of None \<Rightarrow> True
        | Some a \<Rightarrow> (case store_get after (item_id y) of None \<Rightarrow> False
                       | Some b \<Rightarrow> attempts a \<le> attempts b)"
      unfolding attempts_kept_def by blast
    with g k show "\<exists>y'. store_get after k = Some y' \<and> attempts y \<le> attempts y'"
      by (cases "store_get after k") simp_all
  qed
next
  assume "\<forall>k y. store_get before k = Some y \<longrightarrow>
            (\<exists>y'. store_get after k = Some y' \<and> attempts y \<le> attempts y')"
  then show "attempts_kept before after"
    unfolding attempts_kept_def by (fastforce split: option.splits)
qed

lemma attempts_kept_refl [simp]: "attempts_kept xs xs"
  by (simp add: attempts_kept_iff)

lemma attempts_kept_trans:
  "attempts_kept xs ys \<Longrightarrow> attempts_kept ys zs \<Longrightarrow> attempts_kept xs zs"
  unfolding attempts_kept_iff by (meson order_trans)


lemma stored_after_own_key:
  assumes "u_id u = None"
  shows "store_get (syncQueueStore (idb (stored_after d k u))) k =
           (if connected d then map_option (\<lambda>y. object_assign y u) (store_get (syncQueueStore (idb d)) k)
            else store_get (syncQueueStore (idb d)) k)"
proof (cases "store_get (syncQueueStore (idb d)) k")
  case None
  then show ?thesis by (simp add: stored_after_eq)
next
  case (Some item)
  then have "item_id item = k" by (simp add: store_get_SomeD)
  with assms have "item_id (object_assign item u) = k"
    by (simp add: object_assign_def or_else_def)
  with Some show ?thesis
    by (simp add: stored_after_eq store_get_put)
qed

lemma object_assign_attempts:
  "attempts (object_assign y u) = (case u_attempts u of None \<Rightarrow> attempts y | Some n \<Rightarrow> n)"
  by (simp add: object_assign_def or_else_def)

lemma deliver_own_key:
  assumes "deliver env item st = (ex, st')"
  shows "(store_get (syncQueueStore (idb (pdb st))) (item_id item) = None \<longrightarrow>
            store_get (syncQueueStore (idb (pdb st'))) (item_id item) = None) \<and>
         (\<forall>y. store_get (syncQueueStore (idb (pdb st))) (item_id item) = Some y \<longrightarrow>
            (\<exists>y'. store_get (syncQueueStore (idb (pdb st'))) (item_id item) = Some y' \<and>
                  (attempts y' = attempts item \<or> attempts y' = attempts y)))"
  using assms
  by (auto simp: deliver_eq Let_def stored_after_own_key object_assign_attempts
      split: sum.splits if_splits)

lemma deliver_kept:
  assumes d: "deliver env item st = (ex, st')"
      and na: "\<forall>y. store_get (syncQueueStore (idb (pdb st))) (item_id item) = Some y \<longrightarrow>
                   attempts y \<le> attempts item"
  shows "attempts_kept (syncQueueStore (idb (pdb st))) (syncQueueStore (idb (pdb st')))"
    and "\<forall>y. store_get (syncQueueStore (idb (pdb st'))) (item_id item) = Some y \<longrightarrow>
              attempts y \<le> attempts item"
proof -
  show "attempts_kept (syncQueueStore (idb (pdb st))) (syncQueueStore (idb (pdb st')))"
    unfolding attempts_kept_iff
  proof (intro allI impI)
    fix k y assume g: "store_get (syncQueueStore (idb (pdb st))) k = Some y"
    show "\<exists>y'. store_get (syncQueueStore (idb (pdb st'))) k = Some y' \<and> attempts y \<le> attempts y'"
    proof (cases "k = item_id item")
      case True
      with deliver_own_key [OF d] g na show ?thesis by fastforce
    next
      case False
      with deliver_facts(4) [OF d] g show ?thesis by auto
    qed
  qed
  show "\<forall>y. store_get (syncQueueStore (idb (pdb st'))) (item_id item) = Some y \<longrightarrow>
             attempts y \<le> attempts item"
  proof (cases "store_get (syncQueueStore (idb (pdb st))) (item_id item)")
    case None
    with deliver_own_key [OF d] show ?thesis by simp
  next
    case (Some y)
    with deliver_own_key [OF d] na show ?thesis by fastforce
  qed
qed

lemma process_items_ids:
  assumes "process_items env xs st = (ys, ex, st')"
  shows "map item_id ys = map item_id xs"
proof -
  have "list_all2 attempted_once xs ys \<Longrightarrow> map item_id ys = map item_id xs"
    by (induction rule: list_all2_induct) (auto simp: attempted_once_def)
  with process_items_memory [OF assms] show ?thesis by blast
qed

lemma process_items_in_step:
  assumes "process_items env xs st = (ys, ex, st')"
      and "distinct (map item_id xs)"
      and "\<forall>x\<in>set xs. \<forall>y. store_get (syncQueueStore (idb (pdb st))) (item_id x) = Some y \<longrightarrow>
                 attempts y \<le> attempts x"
  shows "(\<forall>x\<in>set ys. \<forall>y. store_get (syncQueueStore (idb (pdb st'))) (item_id x) = Some y \<longrightarrow>
                 attempts y \<le> attempts x) \<and>
         attempts_kept (syncQueueStore (idb (pdb st))) (syncQueueStore (idb (pdb st')))"
  using assms
proof (induction xs arbitrary: st ys ex st')
  case Nil
  then show ?case by auto
next
  case (Cons item rest)
  from Cons.prems(2) have dist: "distinct (map item_id rest)" by simp
  from Cons.prems(2) have "item_id item \<notin> item_id ` set rest" by simp
  then have apart: "\<forall>z\<in>set rest. item_id z \<noteq> item_id item" by (metis imageI)
  from Cons.prems(1) show ?case
  proof (cases rule: process_items_Cons_cases)
    case (exhausted rest')
    let ?st0 = "st\<lparr>failedItems := failedItems st @ [(item, ''Max retries exceeded'')]\<rparr>"
    from Cons.prems(3)
    have "\<forall>x\<in>set rest. \<forall>y. store_get (syncQueueStore (idb (pdb ?st0))) (item_id x) = Some y \<longrightarrow>
                 attempts y \<le> attempts x" by simp
    from Cons.IH [OF exhausted(2) dist this]
    have ih: "\<forall>x\<in>set rest'. \<forall>y. store_get (syncQueueStore (idb (pdb st'))) (item_id x) = Some y \<longrightarrow>
                 attempts y \<le> attempts x"
      and kept: "attempts_kept (syncQueueStore (idb (pdb st))) (syncQueueStore (idb (pdb st')))"
      by simp_all
    from apart have "\<forall>z\<in>set rest. attempts z < maxRetries \<longrightarrow> item_id z \<noteq> item_id item" by simp
    from process_items_other_key [OF exhausted(2) this]
    have "store_get (syncQueueStore (idb (pdb st'))) (item_id item)
            = store_get (syncQueueStore (idb (pdb st))) (item_id item)" by simp
    with Cons.prems(3) ih kept exhausted(3) show ?thesis by simp
  next
    case (continue st1 rest')
    let ?x1 = "item\<lparr>attempts := attempts item + 1\<rparr>"
    from Cons.prems(3)
    have na: "\<forall>y. store_get (syncQueueStore (idb (pdb st))) (item_id ?x1) = Some y \<longrightarrow>
                 attempts y \<le> attempts ?x1" by fastforce
    note k1 = deliver_kept [OF continue(2) na]
    have "\<forall>x\<in>set rest. \<forall>y. store_get (syncQueueStore (idb (pdb st1))) (item_id x) = Some y \<longrightarrow>
                 attempts y \<le> attempts x"
      using Cons.prems(3) apart deliver_facts(4) [OF continue(2)] by simp
    from Cons.IH [OF continue(3) dist this]
    have ih: "\<forall>x\<in>set rest'. \<forall>y. store_get (syncQueueStore (idb (pdb st'))) (item_id x) = Some y \<longrightarrow>
                 attempts y \<le> attempts x"
      and kept: "attempts_kept (syncQueueStore (idb (pdb st1))) (syncQueueStore (idb (pdb st')))"
      by simp_all
    from apart have "\<forall>z\<in>set rest. attempts z < maxRetries \<longrightarrow> item_id z \<noteq> item_id ?x1" by simp
    from process_items_other_key [OF continue(3) this]
    have "store_get (syncQueueStore (idb (pdb st'))) (item_id ?x1)
            = store_get (syncQueueStore (idb (pdb st1))) (item_id ?x1)" .
    with k1(2) ih continue(4) attempts_kept_trans [OF k1(1) kept] show ?thesis by simp
  next
    case stop
    let ?x1 = "item\<lparr>attempts := attempts item + 1\<rparr>"
    from Cons.prems(3)
    have na: "\<forall>y. store_get (syncQueueStore (idb (pdb st))) (item_id ?x1) = Some y \<longrightarrow>
                 attempts y \<le> attempts ?x1" by fastforce
    note k1 = deliver_kept [OF stop(2) na]
    have "\<forall>x\<in>set rest. \<forall>y. store_get (syncQueueStore (idb (pdb st'))) (item_id x) = Some y \<longrightarrow>
                 attempts y \<le> attempts x"
      using Cons.prems(3) apart deliver_facts(4) [OF stop(2)] by simp
    with k1 stop(3) show ?thesis by simp
  qed
qed

lemma stored_not_ahead_iff:
  "stored_not_ahead s \<longleftrightarrow>
     (\<forall>x\<in>set (syncQueue s). \<forall>y. store_get (syncQueueStore (idb (agriDB s))) (item_id x) = Some y \<longrightarrow>
         attempts y \<le> attempts x)"
  by (auto simp: stored_not_ahead_def split: option.splits)

lemma processQueue_in_step:
  assumes "distinct (map item_id (syncQueue s))" and "stored_not_ahead s"
  shows "distinct (map item_id (syncQueue (snd (processQueue env s)))) \<and>
         stored_not_ahead (snd (processQueue env s)) \<and>
         attempts_kept (syncQueueStore (idb (agriDB s)))
           (syncQueueStore (idb (agriDB (snd (processQueue env s)))))"
proof (cases "syncInProgress s \<or> syncQueue s = [] \<or> \<not> online env")
  case True
  with assms show ?thesis by (simp add: processQueue_skip)
next
  case False
  obtain items ex st where r: "process_items env (syncQueue s) (init_pass (agriDB s)) = (items, ex, st)"
    by (metis prod_cases3)
  from assms(2)
  have "\<forall>x\<in>set (syncQueue s). \<forall>y. store_get (syncQueueStore (idb (pdb (init_pass (agriDB s))))) (item_id x) = Some y \<longrightarrow>
                 attempts y \<le> attempts x"
    by (simp add: stored_not_ahead_iff init_pass_def)
  from process_items_in_step [OF r assms(1) this]
  have na: "\<forall>x\<in>set items. \<forall>y. store_get (syncQueueStore (idb (pdb st))) (item_id x) = Some y \<longrightarrow>
                 attempts y \<le> attempts x"
    and kept: "attempts_kept (syncQueueStore (idb (agriDB s))) (syncQueueStore (idb (pdb st)))"
    by (simp_all add: init_pass_def)
  from process_items_ids [OF r] assms(1) have "distinct (map item_id items)" by simp
  then have dist: "distinct (map item_id (filter (\<lambda>x. item_id x \<notin> set (successItems st)) items))"
    by (rule distinct_map_filter)
  from processQueue_pass [OF _ _ _ r] False na kept dist show ?thesis
    by (simp add: finished_pass_def stored_not_ahead_iff)
qed

lemma store_get_append_new:
  "store_get xs (item_id item) = None \<Longrightarrow>
   store_get (xs @ [item]) k = (if k = item_id item then Some item else store_get xs k)"
  unfolding store_get_def
  by (cases "find (\<lambda>x. item_id x = k) xs") (auto simp: find_append_none find_append_some)

lemma enqueue_in_step:
  assumes "distinct (map item_id (syncQueue s))" and "stored_not_ahead s"
      and "fresh_id env \<notin> set (map item_id (syncQueue s))"
      and "store_get (syncQueueStore (idb (agriDB s))) (fresh_id env) = None"
  shows "distinct (map item_id (syncQueue (apply_op (Enqueue env d) s))) \<and>
         stored_not_ahead (apply_op (Enqueue env d) s) \<and>
         attempts_kept (syncQueueStore (idb (agriDB s)))
           (syncQueueStore (idb (agriDB (apply_op (Enqueue env d) s))))"
proof -
  let ?new = "new_queue_item env d"
  let ?enq = "s\<lparr>syncQueue := syncQueue s @ [?new],
                agriDB := (case addItem (agriDB s) ?new of Inl e \<Rightarrow> agriDB s | Inr d' \<Rightarrow> d')\<rparr>"
  have id: "item_id ?new = fresh_id env" and zero: "attempts ?new = 0"
    by (simp_all add: new_queue_item_def)
  have store: "syncQueueStore (idb (agriDB ?enq)) = syncQueueStore (idb (agriDB s)) \<or>
               syncQueueStore (idb (agriDB ?enq)) = syncQueueStore (idb (agriDB s)) @ [?new]"
    by (auto simp: addItem_def)
  have get: "store_get (syncQueueStore (idb (agriDB ?enq))) k =
               store_get (syncQueueStore (idb (agriDB s))) k \<or>
             (k = fresh_id env \<and> store_get (syncQueueStore (idb (agriDB ?enq))) k = Some ?new)" for k
    using store assms(4) id store_get_append_new [of "syncQueueStore (idb (agriDB s))" ?new k]
    by (cases "k = fresh_id env") auto
  have dist: "distinct (map item_id (syncQueue ?enq))"
    using assms(1,3) id by simp
  have na: "stored_not_ahead ?enq"
    unfolding stored_not_ahead_iff
  proof (intro ballI allI impI)
    fix x y assume x: "x \<in> set (syncQueue ?enq)"
      and g: "store_get (syncQueueStore (idb (agriDB ?enq))) (item_id x) = Some y"
    from get [of "item_id x"] show "attempts y \<le> attempts x"
    proof
      assume same: "store_get (syncQueueStore (idb (agriDB ?enq))) (item_id x) =
                      store_get (syncQueueStore (idb (agriDB s))) (item_id x)"
      show ?thesis
      proof (cases "x = ?new")
        case True
        with same g id assms(4) show ?thesis by simp
      next
        case False
        with x have "x \<in> set (syncQueue s)" by simp
        with assms(2) same g show ?thesis by (simp add: stored_not_ahead_iff)
      qed
    next
      assume "item_id x = fresh_id env \<and>
              store_get (syncQueueStore (idb (agriDB ?enq))) (item_id x) = Some ?new"
      with g have "y = ?new" by auto
      with zero show ?thesis by simp
    qed
  qed
  have kept: "attempts_kept (syncQueueStore (idb (agriDB s))) (syncQueueStore (idb (agriDB ?enq)))"
    unfolding attempts_kept_iff
  proof (intro allI impI)
    fix k y assume g: "store_get (syncQueueStore (idb (agriDB s))) k = Some y"
    with assms(4) have "k \<noteq> fresh_id env" by auto
    with get [of k] g
    show "\<exists>y'. store_get (syncQueueStore (idb (agriDB ?enq))) k = Some y' \<and> attempts y \<le> attempts y'"
      by auto
  qed
  show ?thesis
  proof (cases "online env")
    case False
    with dist na kept show ?thesis by (simp add: addToQueue_state Let_def)
  next
    case True
    from processQueue_in_step [OF dist na, of env] kept True show ?thesis
      by (auto simp: addToQueue_state Let_def intro: attempts_kept_trans)
  qed
qed

lemma run_ops_in_step:
  "distinct (map item_id (syncQueue s)) \<Longrightarrow> stored_not_ahead s \<Longrightarrow>
   \<forall>op\<in>set ops. \<not> is_background_sync op \<Longrightarrow> fresh_enqueues ops s \<Longrightarrow>
   attempts_kept (syncQueueStore (idb (agriDB s))) (syncQueueStore (idb (agriDB (run_ops ops s))))"
proof (induction ops arbitrary: s)
  case Nil
  then show ?case by simp
next
  case (Cons op ops)
  from Cons.prems(3) have nobg: "\<not> is_background_sync op"
    and rest: "\<forall>op\<in>set ops. \<not> is_background_sync op" by auto
  have step: "distinct (map item_id (syncQueue (apply_op op s))) \<and>
              stored_not_ahead (apply_op op s) \<and>
              attempts_kept (syncQueueStore (idb (agriDB s)))
                (syncQueueStore (idb (agriDB (apply_op op s)))) \<and>
              fresh_enqueues ops (apply_op op s)"
  proof (cases op)
    case (Enqueue env d)
    with Cons.prems(4) enqueue_in_step [OF Cons.prems(1,2), of env d] show ?thesis by simp
  next
    case (Drain env)
    with Cons.prems(4) processQueue_in_step [OF Cons.prems(1,2), of env] show ?thesis by simp
  next
    case (BackgroundSync env)
    with nobg show ?thesis by simp
  qed
  then have "attempts_kept (syncQueueStore (idb (agriDB (apply_op op s))))
               (syncQueueStore (idb (agriDB (run_ops ops (apply_op op s)))))"
    using Cons.IH [of "apply_op op s"] rest by simp
  with step show ?case by (auto intro: attempts_kept_trans)
qed


subsection \<open>Background sync\<close>

lemma store_put_kept:
  assumes "store_get xs (item_id new) = Some old" and "attempts old \<le> attempts new"
  shows "attempts_kept xs (store_put xs new)"
  unfolding attempts_kept_iff using assms by (auto simp: store_get_put)

lemma markAsSynced_kept:
  "\<exists>db'. markAsSynced t db k = Inr db' \<and> attempts_kept (syncQueueStore db) (syncQueueStore db')"
proof (cases "store_get (syncQueueStore db) k")
  case None
  then show ?thesis by (simp add: markAsSynced_def)
next
  case (Some item)
  then have "item_id item = k" by (simp add: store_get_SomeD)
  with Some store_put_kept [of "syncQueueStore db" "item\<lparr>status := Synced, syncedAt := Some t\<rparr>" item]
  show ?thesis by (simp add: markAsSynced_def)
qed

lemma updateRetryCount_kept:
  "\<exists>db'. updateRetryCount t db k = Inr db' \<and> attempts_kept (syncQueueStore db) (syncQueueStore db')"
proof (cases "store_get (syncQueueStore db) k")
  case None
  then show ?thesis by (simp add: updateRetryCount_def)
next
  case (Some item)
  then have "item_id item = k" by (simp add: store_get_SomeD)
  with Some store_put_kept [of "syncQueueStore db"
      "item\<lparr>attempts := attempts item + 1, lastError := Some ''Background sync failed'',
            lastAttempt := Some t\<rparr>" item]
  show ?thesis by (simp add: updateRetryCount_def)
qed

lemma sync_pending_items_kept:
  "attempts_kept (syncQueueStore db) (syncQueueStore (fst (sync_pending_items env items n db r)))"
proof (induction items arbitrary: n db r)
  case Nil
  show ?case by simp
next
  case (Cons item rest)
  obtain db1 where m: "markAsSynced (sw_now env) db (item_id item) = Inr db1"
    and k1: "attempts_kept (syncQueueStore db) (syncQueueStore db1)"
    using markAsSynced_kept by blast
  obtain db2 where u: "updateRetryCount (sw_now env) db (item_id item) = Inr db2"
    and k2: "attempts_kept (syncQueueStore db) (syncQueueStore db2)"
    using updateRetryCount_kept by blast
  show ?case
  proof (cases "syncToServer env n item")
    case (Inl e)
    with u attempts_kept_trans [OF k2 Cons.IH] show ?thesis by simp
  next
    case (Inr ack)
    with m attempts_kept_trans [OF k1 Cons.IH] show ?thesis by simp
  qed
qed

lemma syncPendingData_kept:
  "attempts_kept (syncQueueStore db) (syncQueueStore (fst (syncPendingData env db)))"
  using sync_pending_items_kept
          [of db env "sort_key item_id (filter (\<lambda>x. status x = Pending) (syncQueueStore db))" 0
              "\<lparr>successful = 0, failed = 0, errors = []\<rparr>"]
  by (auto simp: syncPendingData_def openIndexedDB_def getPendingSyncItems_def
      split: prod.splits sum.splits)

lemma run_ops_background_kept:
  "\<forall>op\<in>set ops. is_background_sync op \<Longrightarrow>
   attempts_kept (syncQueueStore (idb (agriDB s))) (syncQueueStore (idb (agriDB (run_ops ops s))))"
proof (induction ops arbitrary: s)
  case Nil
  show ?case by simp
next
  case (Cons op ops)
  from Cons.prems obtain env where op: "op = BackgroundSync env" by (cases op) auto
  from Cons.prems have "\<forall>op\<in>set ops. is_background_sync op" by simp
  from Cons.IH [OF this, of "apply_op op s"] syncPendingData_kept [of "idb (agriDB s)" env] op
  show ?case by (auto intro: attempts_kept_trans)
qed

text \<open>
  C2 (as amended). Start from an in-memory queue whose items have at most \<open>maxRetries\<close> = 3
  attempts, and take any sequence of enqueue, drain and background-sync operations.

  In memory: no item of the queue ever has more than \<open>maxRetries\<close> attempts, and
  attempts never decrease: every item of the queue afterwards either has an id that an
  enqueue of the sequence assigned, or was in the queue before under that id with no
  more attempts. A drain pass leaves the attempts of an item as they are or adds 1, and
  adds 1 only to an item with attempts below \<open>maxRetries\<close>; the queue after the pass is
  the queue of the loop without the delivered items.

  In the store, for a sequence without background sync: if the stored items start with
  at most \<open>maxRetries\<close> attempts they keep to that bound; and if the ids of the queue are
  distinct, no stored copy starts ahead of its item in the queue, and every enqueue
  assigns an id new to queue and store, then every stored item stays stored with
  attempts that never decrease. For a sequence of background syncs alone, every stored
  item stays stored with attempts that never decrease.
\<close>

theorem attempts_along_operations:
  assumes "\<forall>x\<in>set (syncQueue s). attempts x \<le> maxRetries"
  shows "(\<forall>x\<in>set (syncQueue (run_ops ops s)). attempts x \<le> maxRetries) \<and>
         (\<forall>x\<in>set (syncQueue (run_ops ops s)).
             item_id x \<in> set (enqueued_ids ops) \<or>
             (\<exists>y\<in>set (syncQueue s). item_id y = item_id x \<and> attempts y \<le> attempts x)) \<and>
         ((\<forall>op\<in>set ops. \<not> is_background_sync op) \<and>
          (\<forall>x\<in>set (syncQueueStore (idb (agriDB s))). attempts x \<le> maxRetries) \<longrightarrow>
          (\<forall>x\<in>set (syncQueueStore (idb (agriDB (run_ops ops s)))). attempts x \<le> maxRetries)) \<and>
         ((\<forall>op\<in>set ops. \<not> is_background_sync op) \<and>
          distinct (map item_id (syncQueue s)) \<and> stored_not_ahead s \<and> fresh_enqueues ops s \<longrightarrow>
          (\<forall>k y. store_get (syncQueueStore (idb (agriDB s))) k = Some y \<longrightarrow>
             (\<exists>y'. store_get (syncQueueStore (idb (agriDB (run_ops ops s)))) k = Some y' \<and>
                   attempts y \<le> attempts y'))) \<and>
         ((\<forall>op\<in>set ops. is_background_sync op) \<longrightarrow>
          (\<forall>k y. store_get (syncQueueStore (idb (agriDB s))) k = Some y \<longrightarrow>
             (\<exists>y'. store_get (syncQueueStore (idb (agriDB (run_ops ops s)))) k = Some y' \<and>
                   attempts y \<le> attempts y'))) \<and>
         list_all2 (\<lambda>old new. item_id new = item_id old \<and> attempts old \<le> attempts new \<and>
                      (attempts new \<noteq> attempts old \<longrightarrow>
                         attempts old < maxRetries \<and> attempts new = attempts old + 1))
           (syncQueue s) (fst (process_items env (syncQueue s) (init_pass (agriDB s)))) \<and>
         (syncQueue (apply_op (Drain env) s) = syncQueue s \<or>
          syncQueue (apply_op (Drain env) s) =
            filter (\<lambda>x. item_id x \<notin> set (successItems (snd (snd
                       (process_items env (syncQueue s) (init_pass (agriDB s)))))))
              (fst (process_items env (syncQueue s) (init_pass (agriDB s))))) \<and>
         maxRetries = 3"
proof -
  obtain items ex st where r: "process_items env (syncQueue s) (init_pass (agriDB s)) = (items, ex, st)"
    by (metis prod_cases3)
  have pass: "list_all2 (\<lambda>old new. item_id new = item_id old \<and> attempts old \<le> attempts new \<and>
                      (attempts new \<noteq> attempts old \<longrightarrow>
                         attempts old < maxRetries \<and> attempts new = attempts old + 1))
           (syncQueue s) (fst (process_items env (syncQueue s) (init_pass (agriDB s))))"
    unfolding r fst_conv
    by (rule list_all2_mono [OF process_items_memory [OF r]]) (auto simp: attempted_once_def)
  have origin: "\<forall>x\<in>set (syncQueue (run_ops ops s)).
             item_id x \<in> set (enqueued_ids ops) \<or>
             (\<exists>y\<in>set (syncQueue s). item_id y = item_id x \<and> attempts y \<le> attempts x)"
    using run_ops_origin by blast
  have stored: "\<forall>k y. store_get (syncQueueStore (idb (agriDB s))) k = Some y \<longrightarrow>
             (\<exists>y'. store_get (syncQueueStore (idb (agriDB (run_ops ops s)))) k = Some y' \<and>
                   attempts y \<le> attempts y')"
    if "(\<forall>op\<in>set ops. \<not> is_background_sync op) \<and>
        distinct (map item_id (syncQueue s)) \<and> stored_not_ahead s \<and> fresh_enqueues ops s"
    using run_ops_in_step [of s ops] that by (simp add: attempts_kept_iff)
  have background: "\<forall>k y. store_get (syncQueueStore (idb (agriDB s))) k = Some y \<longrightarrow>
             (\<exists>y'. store_get (syncQueueStore (idb (agriDB (run_ops ops s)))) k = Some y' \<and>
                   attempts y \<le> attempts y')"
    if "\<forall>op\<in>set ops. is_background_sync op"
    using run_ops_background_kept [OF that, of s] by (simp add: attempts_kept_iff)
  have three: "maxRetries = 3" by (simp add: maxRetries_def)
  from run_ops_memory_bound [OF assms, of ops] origin run_ops_store_bound [of s ops]
       stored background pass drain_queue [of env s] three
  show ?thesis by blast
qed

theorem attempts_along_operations_witness:
  "map attempts (syncQueue (sample_sync [sample_item ''k1'' 2])) = [2] \<and>
   map attempts (syncQueueStore (idb (agriDB (sample_sync [sample_item ''k1'' 2])))) = [2] \<and>
   2 \<le> maxRetries \<and>
   map attempts (syncQueue (run_ops
       [Enqueue (failing_env False ''Server timeout'') sample_descriptor,
        Drain (failing_env True ''Server timeout''),
        Drain (failing_env True ''Server timeout'')]
       (sample_sync [sample_item ''k1'' 2]))) = [3, 2] \<and>
   map attempts (syncQueueStore (idb (agriDB (run_ops
       [Enqueue (failing_env False ''Server timeout'') sample_descriptor,
        Drain (failing_env True ''Server timeout''),
        Drain (failing_env True ''Server timeout'')]
       (sample_sync [sample_item ''k1'' 2]))))) = [3, 2] \<and>
   3 \<le> maxRetries \<and>
   map attempts (syncQueue (run_ops [BackgroundSync failing_sw_env]
       (sample_sync [sample_item ''k1'' 2]))) = [2] \<and>
   map attempts (syncQueueStore (idb (agriDB (run_ops [BackgroundSync failing_sw_env]
       (sample_sync [sample_item ''k1'' 2]))))) = [3]"
proof -
  let ?s = "sample_sync [sample_item ''k1'' 2]"
  let ?e = "failing_env True ''Server timeout''"
  let ?ops = "[Enqueue (failing_env False ''Server timeout'') sample_descriptor, Drain ?e, Drain ?e]"
  let ?bg = "[BackgroundSync failing_sw_env]"
  have start: "\<forall>x\<in>set (syncQueue ?s). attempts x \<le> maxRetries"
    by (simp add: sample_sync_def sample_item_def maxRetries_def)
  have stored: "\<forall>x\<in>set (syncQueueStore (idb (agriDB ?s))). attempts x \<le> maxRetries"
    by (simp add: sample_sync_def sample_db_def sample_item_def maxRetries_def)
  have no_bg: "\<forall>op\<in>set ?ops. \<not> is_background_sync op"
    by simp
  have all_bg: "\<forall>op\<in>set ?bg. is_background_sync op"
    by simp
  have ids: "distinct (map item_id (syncQueue ?s))"
    by (simp add: sample_sync_def)
  have level: "stored_not_ahead ?s"
    by (simp add: stored_not_ahead_def sample_sync_def sample_db_def sample_item_def store_get_def)
  have fresh: "fresh_enqueues ?ops ?s"
    by code_simp
  have before: "map attempts (syncQueue ?s) = [2]"
    "map attempts (syncQueueStore (idb (agriDB ?s))) = [2]"
    by (simp_all add: sample_sync_def sample_db_def sample_item_def)
  have in_memory: "map attempts (syncQueue (run_ops ?ops ?s)) = [3, 2]"
    by code_simp
  have in_store: "map attempts (syncQueueStore (idb (agriDB (run_ops ?ops ?s)))) = [3, 2]"
    by code_simp
  have bg_memory: "map attempts (syncQueue (run_ops ?bg ?s)) = [2]"
    by code_simp
  have bg_store: "map attempts (syncQueueStore (idb (agriDB (run_ops ?bg ?s)))) = [3]"
    by code_simp
  note drains = attempts_along_operations [OF start, of ?ops ?e]
  note syncs = attempts_along_operations [OF start, of ?bg ?e]
  have bounded: "\<forall>x\<in>set (syncQueue (run_ops ?ops ?s)). attempts x \<le> maxRetries"
    using drains by (rule conjunct1)
  have stored_bounded:
    "\<forall>x\<in>set (syncQueueStore (idb (agriDB (run_ops ?ops ?s)))). attempts x \<le> maxRetries"
    using drains [THEN conjunct2, THEN conjunct2, THEN conjunct1] no_bg stored by blast
  have stored_kept:
    "\<forall>k y. store_get (syncQueueStore (idb (agriDB ?s))) k = Some y \<longrightarrow>
       (\<exists>y'. store_get (syncQueueStore (idb (agriDB (run_ops ?ops ?s)))) k = Some y' \<and>
             attempts y \<le> attempts y')"
    using drains [THEN conjunct2, THEN conjunct2, THEN conjunct2, THEN conjunct1]
          no_bg ids level fresh by blast
  have synced_kept:
    "\<forall>k y. store_get (syncQueueStore (idb (agriDB ?s))) k = Some y \<longrightarrow>
       (\<exists>y'. store_get (syncQueueStore (idb (agriDB (run_ops ?bg ?s)))) k = Some y' \<and>
             attempts y \<le> attempts y')"
    using syncs [THEN conjunct2, THEN conjunct2, THEN conjunct2, THEN conjunct2, THEN conjunct1]
          all_bg by blast
  have concrete: "?thesis"
    using before in_memory in_store bg_memory bg_store by (simp add: maxRetries_def)
  from bounded stored_bounded stored_kept synced_kept show ?thesis
    by - (rule concrete)
qed

text \<open>
  An item is enqueued offline. Four background syncs fail: its stored attempts are 4.
  After two failed background syncs its stored attempts are 2, and a drain pass that
  fails next writes 1 over them. And without background sync: the store still holds a
  delivered item with 2 attempts, an enqueue draws its id again, and the next drain pass
  writes 1 over the 2.
\<close>

theorem stored_attempts_exceed_and_decrease_counterexample:
  "map attempts (syncQueueStore (idb (agriDB
      (run_ops [Enqueue (failing_env False ''Server timeout'') sample_descriptor,
                BackgroundSync failing_sw_env, BackgroundSync failing_sw_env,
                BackgroundSync failing_sw_env, BackgroundSync failing_sw_env]
         (sample_sync []))))) = [4] \<and>
   maxRetries = 3 \<and>
   map attempts (syncQueueStore (idb (agriDB
      (run_ops [Enqueue (failing_env False ''Server timeout'') sample_descriptor,
                BackgroundSync failing_sw_env, BackgroundSync failing_sw_env]
         (sample_sync []))))) = [2] \<and>
   map attempts (syncQueueStore (idb (agriDB
      (run_ops [Enqueue (failing_env False ''Server timeout'') sample_descriptor,
                BackgroundSync failing_sw_env, BackgroundSync failing_sw_env,
                Drain (failing_env True ''Server timeout'')]
         (sample_sync []))))) = [1] \<and>
   map attempts (syncQueueStore (idb (agriDB
      (run_ops [Enqueue (failing_env False ''Server timeout'') sample_descriptor]
         ((sample_sync [])\<lparr>agriDB := sample_db [synced_item ''k9'' 2]\<rparr>))))) = [2] \<and>
   map attempts (syncQueueStore (idb (agriDB
      (run_ops [Enqueue (failing_env False ''Server timeout'') sample_descriptor,
                Drain (failing_env True ''Server timeout'')]
         ((sample_sync [])\<lparr>agriDB := sample_db [synced_item ''k9'' 2]\<rparr>))))) = [1]"
  by code_simp

section \<open>Claims about the response cache\<close>

text \<open>
  C8. A request handled by \<open>imageStrategy\<close> or \<open>staticStrategy\<close> that has an entry in the
  partition of the strategy (the image cache, the static cache) is answered with that
  entry, and no request is handed to \<open>fetch\<close>: the state, with its log of fetches, is
  as before.
\<close>

theorem cache_first_serves_from_cache:
  "(cache_match st IMAGE_CACHE req = Some r \<longrightarrow>
      imageStrategy net req st = (Inr r, st) \<and>
      fetch_log (snd (imageStrategy net req st)) = fetch_log st) \<and>
   (cache_match st CACHE_NAME req = Some r \<longrightarrow>
      staticStrategy net req st = (Inr r, st) \<and>
      fetch_log (snd (staticStrategy net req st)) = fetch_log st)"
  by (simp add: imageStrategy_def staticStrategy_def)

theorem cache_first_serves_from_cache_witness:
  "cache_match (cache_put empty_caches CACHE_NAME (sample_request ''/css/style.css'') sample_response)
      CACHE_NAME (sample_request ''/css/style.css'') = Some sample_response \<and>
   fst (staticStrategy offline_network (sample_request ''/css/style.css'')
          (cache_put empty_caches CACHE_NAME (sample_request ''/css/style.css'') sample_response))
     = Inr sample_response \<and>
   fetch_log (snd (staticStrategy offline_network (sample_request ''/css/style.css'')
          (cache_put empty_caches CACHE_NAME (sample_request ''/css/style.css'') sample_response)))
     = [] \<and>
   cache_match (cache_put empty_caches IMAGE_CACHE (sample_request ''/images/maize.jpg'') sample_response)
      IMAGE_CACHE (sample_request ''/images/maize.jpg'') = Some sample_response \<and>
   fetch_log (snd (imageStrategy offline_network (sample_request ''/images/maize.jpg'')
          (cache_put empty_caches IMAGE_CACHE (sample_request ''/images/maize.jpg'') sample_response)))
     = []"
proof -
  let ?st = "cache_put empty_caches CACHE_NAME (sample_request ''/css/style.css'') sample_response"
  let ?im = "cache_put empty_caches IMAGE_CACHE (sample_request ''/images/maize.jpg'') sample_response"
  have hit: "cache_match ?st CACHE_NAME (sample_request ''/css/style.css'') = Some sample_response"
    by (simp add: cache_match_def cache_put_def)
  have hit': "cache_match ?im IMAGE_CACHE (sample_request ''/images/maize.jpg'') = Some sample_response"
    by (simp add: cache_match_def cache_put_def)
  have log: "fetch_log ?st = []" "fetch_log ?im = []"
    by (simp_all add: cache_put_def empty_caches_def)
  from cache_first_serves_from_cache [of ?st "sample_request ''/css/style.css''" sample_response offline_network]
       cache_first_serves_from_cache [of ?im "sample_request ''/images/maize.jpg''" sample_response offline_network]
       hit hit' log
  show ?thesis by simp
qed

text \<open>
  C9. When \<open>fetch\<close> fails and the API partition has no entry for the request,
  \<open>apiStrategy\<close> and \<open>apiFirstStrategy\<close> return a response instead of throwing: its
  body is a JSON object whose \<open>status\<close> is \<open>offline\<close>, and its header \<open>X-Offline\<close> is
  \<open>true\<close>.
\<close>

theorem api_offline_payload:
  assumes "fetch net req = Inl e" and "cache_match st API_CACHE req = None"
  shows "fst (apiStrategy net req st) = Inr (offline_payload net) \<and>
         json_member (resp_body (offline_payload net)) ''status'' = Some ''offline'' \<and>
         headers_get (headers (offline_payload net)) ''X-Offline'' = Some ''true'' \<and>
         fst (apiFirstStrategy net req st) = Inr offline_fallback \<and>
         json_member (resp_body offline_fallback) ''status'' = Some ''offline'' \<and>
         headers_get (headers offline_fallback) ''X-Offline'' = Some ''true''"
  using assms
  by (simp add: apiStrategy_def apiFirstStrategy_def do_fetch_def cache_match_def
      offline_payload_def offline_fallback_def new_Response_def json_member_def headers_get_def)

theorem api_offline_payload_witness:
  "fetch offline_network (sample_request ''/api/prices'') = Inl (JsError ''TypeError'' ''Failed to fetch'') \<and>
   cache_match empty_caches API_CACHE (sample_request ''/api/prices'') = None \<and>
   fst (apiStrategy offline_network (sample_request ''/api/prices'') empty_caches)
     = Inr (offline_payload offline_network) \<and>
   fst (apiFirstStrategy offline_network (sample_request ''/api/prices'') empty_caches)
     = Inr offline_fallback"
proof -
  have down: "fetch offline_network (sample_request ''/api/prices'') = Inl (JsError ''TypeError'' ''Failed to fetch'')"
    by (simp add: offline_network_def)
  have miss: "cache_match empty_caches API_CACHE (sample_request ''/api/prices'') = None"
    by (simp add: cache_match_def empty_caches_def)
  from api_offline_payload [OF down miss] down miss show ?thesis by simp
qed

text \<open>
  C10. That synthesized response has HTTP status 200 in both workers, the status of a
  successful answer of the server that \<open>apiStrategy\<close> passes on; what tells it apart
  is the header \<open>X-Offline\<close> and the \<open>status\<close> member of the body.
\<close>

theorem offline_payload_has_status_200:
  assumes "fetch net req = Inl e" and "cache_match st API_CACHE req = None"
  shows "resp_status (projr (fst (apiStrategy net req st))) = 200 \<and>
         resp_status (projr (fst (apiFirstStrategy net req st))) = 200 \<and>
         (\<forall>net' resp. fetch net' req = Inr resp \<and> resp_status resp = 200 \<longrightarrow>
            resp_status (projr (fst (apiStrategy net' req st)))
              = resp_status (projr (fst (apiStrategy net req st)))) \<and>
         headers_get (headers (projr (fst (apiStrategy net req st)))) ''X-Offline'' = Some ''true'' \<and>
         json_member (resp_body (projr (fst (apiStrategy net req st)))) ''status'' = Some ''offline''"
  using assms
  by (simp add: apiStrategy_def apiFirstStrategy_def do_fetch_def cache_match_def
      offline_payload_def offline_fallback_def new_Response_def or_else_def
      json_member_def headers_get_def)

theorem offline_payload_has_status_200_witness:
  "fetch offline_network (sample_request ''/api/weather'') = Inl (JsError ''TypeError'' ''Failed to fetch'') \<and>
   cache_match empty_caches API_CACHE (sample_request ''/api/weather'') = None \<and>
   resp_status (projr (fst (apiStrategy offline_network (sample_request ''/api/weather'') empty_caches))) = 200 \<and>
   resp_status (projr (fst (apiFirstStrategy offline_network (sample_request ''/api/weather'') empty_caches))) = 200"
proof -
  have down: "fetch offline_network (sample_request ''/api/weather'') = Inl (JsError ''TypeError'' ''Failed to fetch'')"
    by (simp add: offline_network_def)
  have miss: "cache_match empty_caches API_CACHE (sample_request ''/api/weather'') = None"
    by (simp add: cache_match_def empty_caches_def)
  from offline_payload_has_status_200 [OF down miss] down miss show ?thesis by simp
qed

end
